(* ===== verification/Prelude.thy ===== *)
theory Prelude
  imports Main
begin

text \<open>
  Shared vocabulary of the development. The dataset fetchers of
  \<^verbatim>\<open>src/MDAnalysisData\<close> act on three kinds of process-wide state: the local
  file system (the cache tree and the package's description files), the
  process environment (\<^verbatim>\<open>MDANALYSIS_DATA\<close>, \<^verbatim>\<open>HOME\<close>, the working
  directory), and the remote content host; the records sent to the module
  loggers are a fourth, write-only, part. All of it is one record
  \<open>world\<close>; every operation is a function \<open>world \<Rightarrow> (error + 'a) \<times> world\<close>
  (type \<open>'a act\<close>), so a Python exception is an \<open>Inl\<close> result that still
  carries the world as it was when the exception was raised.
\<close>

section \<open>Paths, files and the world\<close>

text \<open>
  A path component is either a name that can occur in a Python path string,
  or the private temporary file a downloader writes next to its target
  (\<open>Tmp pid filename\<close>). No path string resolves to a \<open>Tmp\<close> component, so
  temporary files are never visible at a path the program names.
\<close>

datatype comp = Name string | Tmp nat string

type_synonym path = "comp list"
type_synonym content = string

datatype node = Dir | File content

type_synonym fsys = "path \<Rightarrow> node option"

text \<open>
  What the content host answers to one request: a body (HTTP 200), no answer
  within the transport timeout, a reset connection, or another status code.
\<close>

datatype reply = Ok content | Stall | Reset | Status nat

record world =
  fs :: fsys
  cwd :: path
  environ :: "string \<Rightarrow> string option"
  net :: "string \<Rightarrow> reply list"
  requests :: "string list"
  clock :: nat
  log :: "string list"

text \<open>
  The error taxonomy of the spec (section 7). \<open>MissingDataError role path\<close>
  is the \<^verbatim>\<open>IOError\<close> the fetchers raise themselves, with the two values
  of its message; \<open>IntegrityError filename expected actual\<close> a checksum
  mismatch; \<open>TransientFetchError url attempts\<close> a network failure that
  outlived the retries; \<open>FilesystemError errno path\<close> an \<^verbatim>\<open>OSError\<close> of
  the operating system, by its \<^verbatim>\<open>errno\<close>; \<open>AttributeError key\<close> a
  missing field of a result bundle.
\<close>

datatype errno = EEXIST | ENOENT | ENOTDIR | EISDIR

datatype error =
    MissingDataError string string
  | IntegrityError string string string
  | TransientFetchError string nat
  | FilesystemError errno path
  | AttributeError string

type_synonym 'a act = "world \<Rightarrow> (error + 'a) \<times> world"

section \<open>Sequencing with exceptions\<close>

definition est_return :: "'a \<Rightarrow> 'a act" where
  "est_return a w = (Inr a, w)"

definition est_raise :: "error \<Rightarrow> 'a act" where
  "est_raise e w = (Inl e, w)"

definition est_bind :: "'a act \<Rightarrow> ('a \<Rightarrow> 'b act) \<Rightarrow> 'b act" where
  "est_bind m f w = (case m w of (Inl e, w') \<Rightarrow> (Inl e, w') | (Inr a, w') \<Rightarrow> f a w')"

text \<open>
  \<^verbatim>\<open>logger.info(msg)\<close>: the record is emitted to the module's logger,
  whose handlers are outside the program; the model keeps the emitted
  messages in order in the field \<open>log\<close>.
\<close>

definition log_info :: "string \<Rightarrow> world \<Rightarrow> world" where
  [simp]: "log_info msg w = w\<lparr>log := log w @ [msg]\<rparr>"

section \<open>Relations every step keeps\<close>

text \<open>
  Many properties of the fetchers say that the world only grows in some
  respect: the request log is extended, files are never removed from the
  cache, time never goes back. Such a property is a preorder \<open>R\<close> on worlds
  that an action keeps from its input to its output; it carries through
  \<open>est_bind\<close>, so a sequential composition keeps it when its parts do.
\<close>

definition keeps :: "(world \<Rightarrow> world \<Rightarrow> bool) \<Rightarrow> 'a act \<Rightarrow> bool" where
  "keeps R m \<longleftrightarrow> (\<forall>w. R w (snd (m w)))"

section \<open>Lemmas\<close>

named_theorems est_simps "evaluation rules of the exception-state combinators"

lemma est_return_apply [simp, est_simps]: "est_return a w = (Inr a, w)"
  by (simp add: est_return_def)

lemma est_raise_apply [simp, est_simps]: "est_raise e w = (Inl e, w)"
  by (simp add: est_raise_def)

lemma est_bind_Inl [est_simps]: "m w = (Inl e, w') \<Longrightarrow> est_bind m f w = (Inl e, w')"
  by (simp add: est_bind_def)

lemma est_bind_Inr [est_simps]: "m w = (Inr a, w') \<Longrightarrow> est_bind m f w = f a w'"
  by (simp add: est_bind_def)

lemma est_bind_return_left [simp]: "est_bind (est_return a) f = f a"
  by (simp add: est_bind_def fun_eq_iff)

lemma est_bind_return_right [simp]: "est_bind m est_return = m"
  by (simp add: est_bind_def fun_eq_iff split: prod.splits sum.splits)

lemma est_bind_assoc:
  "est_bind (est_bind m f) g = est_bind m (\<lambda>a. est_bind (f a) g)"
  by (simp add: est_bind_def fun_eq_iff split: prod.splits sum.splits)

lemma est_bind_cases:
  assumes "est_bind m f w = (r, w'')"
  obtains (fail) e where "m w = (Inl e, w'')" and "r = Inl e"
    | (ok) a w' where "m w = (Inr a, w')" and "f a w' = (r, w'')"
  using assms by (cases "m w" rule: prod.exhaust) (auto simp: est_bind_def split: sum.splits)

lemma keepsD: "keeps R m \<Longrightarrow> m w = (r, w') \<Longrightarrow> R w w'"
  by (metis keeps_def snd_conv)

lemma keepsI: "(\<And>w r w'. m w = (r, w') \<Longrightarrow> R w w') \<Longrightarrow> keeps R m"
  by (metis keeps_def prod.collapse)

lemma keeps_return: "reflp R \<Longrightarrow> keeps R (est_return a)"
  by (simp add: keeps_def reflpD)

lemma keeps_raise: "reflp R \<Longrightarrow> keeps R (est_raise e)"
  by (simp add: keeps_def reflpD)

lemma keeps_bind:
  assumes "transp R" and "keeps R m" and "\<And>a. keeps R (f a)"
  shows "keeps R (est_bind m f)"
proof (rule keepsI)
  fix w r w''
  assume "est_bind m f w = (r, w'')"
  then show "R w w''"
  proof (cases rule: est_bind_cases)
    case fail
    then show ?thesis using assms(2) by (blast dest: keepsD)
  next
    case (ok a w')
    then have "R w w'" and "R w' w''" using assms(2,3) by (blast dest: keepsD)+
    then show ?thesis using assms(1) by (blast dest: transpD)
  qed
qed

section \<open>Generic list facts\<close>

lemma map_of_append_Some [simp]:
  "map_of xs k = Some v \<Longrightarrow> map_of (xs @ ys) k = Some v"
  by simp

end
