(* ===== verification/Paths.thy ===== *)
theory Paths
  imports Prelude
begin

text \<open>
  Path strings as the fetchers handle them. The Python code never builds a
  path itself: it calls \<^verbatim>\<open>os.path.join\<close> and \<^verbatim>\<open>os.path.expanduser\<close>
  (\<^verbatim>\<open>posixpath\<close> on the platforms the package targets) and hands the
  strings to \<^verbatim>\<open>os.path.exists\<close>, \<^verbatim>\<open>os.makedirs\<close> and \<^verbatim>\<open>open\<close>, which
  resolve them against the working directory. This theory models the string
  functions and the resolution, and proves that joining a plain file name
  onto a path string adds one component to the resolved path
  (\<open>resolve_posix_join\<close>), and that rendering a resolved path and resolving it
  again is the identity (\<open>resolve_render\<close>).
\<close>

section \<open>String functions of posixpath\<close>

text \<open>\<^verbatim>\<open>s.split('/')\<close>: never empty; empty fields between separators are kept.\<close>

fun split_slash :: "string \<Rightarrow> string list" where
  "split_slash [] = [[]]"
| "split_slash (c # cs) =
     (let r = split_slash cs in if c = CHR ''/'' then [] # r else (c # hd r) # tl r)"

text \<open>\<^verbatim>\<open>posixpath.join(a, b)\<close> for two arguments.\<close>

definition posix_join :: "string \<Rightarrow> string \<Rightarrow> string" where
  "posix_join a b =
     (if b \<noteq> [] \<and> hd b = CHR ''/'' then b
      else if a = [] \<or> last a = CHR ''/'' then a @ b
      else a @ ''/'' @ b)"

text \<open>\<^verbatim>\<open>s.rstrip('/')\<close>.\<close>

definition rstrip_slash :: "string \<Rightarrow> string" where
  "rstrip_slash s = rev (dropWhile (\<lambda>c. c = CHR ''/'') (rev s))"

text \<open>
  \<^verbatim>\<open>posixpath.expanduser(s)\<close>: a leading \<^verbatim>\<open>~\<close> alone or followed by a
  separator is replaced by \<^verbatim>\<open>$HOME\<close> with its trailing separators removed;
  without \<^verbatim>\<open>HOME\<close> in the environment, and for the \<^verbatim>\<open>~user\<close> form, the
  model leaves the string unchanged, as Python does when the password
  database has no entry.
\<close>

definition expanduser :: "(string \<Rightarrow> string option) \<Rightarrow> string \<Rightarrow> string" where
  "expanduser env s =
     (if s \<noteq> [] \<and> hd s = CHR ''~'' \<and> (tl s = [] \<or> hd (tl s) = CHR ''/'') then
        (case env ''HOME'' of
           None \<Rightarrow> s
         | Some h \<Rightarrow> (let r = rstrip_slash h @ tl s in if r = [] then ''/'' else r))
      else s)"

section \<open>Resolution by the operating system\<close>

text \<open>
  The kernel reads a path string field by field from the root (absolute) or
  the working directory (relative): empty fields and \<^verbatim>\<open>.\<close> stay,
  \<^verbatim>\<open>..\<close> goes to the parent, anything else descends. The empty string
  names nothing (\<^verbatim>\<open>ENOENT\<close>). Symbolic links are not modelled, so
  \<^verbatim>\<open>..\<close> is the lexical parent.
\<close>

definition norm_step :: "path \<Rightarrow> string \<Rightarrow> path" where
  "norm_step p s =
     (if s = [] \<or> s = ''.'' then p else if s = ''..'' then butlast p else p @ [Name s])"

definition resolve :: "path \<Rightarrow> string \<Rightarrow> path option" where
  "resolve cw s =
     (if s = [] then None
      else Some (foldl norm_step (if hd s = CHR ''/'' then [] else cw) (split_slash s)))"

text \<open>A file name that resolves to exactly one new component.\<close>

definition simple_name :: "string \<Rightarrow> bool" where
  "simple_name s \<longleftrightarrow> s \<noteq> [] \<and> CHR ''/'' \<notin> set s \<and> s \<noteq> ''.'' \<and> s \<noteq> ''..''"

text \<open>The string of an absolute path of names, as \<^verbatim>\<open>os.path.abspath\<close> prints it.\<close>

definition render :: "string list \<Rightarrow> string" where
  "render ns = (if ns = [] then ''/'' else concat (map (\<lambda>n. CHR ''/'' # n) ns))"

section \<open>Lemmas\<close>

lemma split_slash_nonempty [simp]: "split_slash s \<noteq> []"
  by (induction s) (auto simp: Let_def)

lemma split_slash_no_sep: "CHR ''/'' \<notin> set s \<Longrightarrow> split_slash s = [s]"
  by (induction s) (auto simp: Let_def)

lemma split_slash_append_sep:
  "split_slash (a @ CHR ''/'' # b) = split_slash a @ split_slash b"
  by (induction a) (auto simp: Let_def)

lemma norm_step_simple [simp]: "simple_name s \<Longrightarrow> norm_step p s = p @ [Name s]"
  by (auto simp: norm_step_def simple_name_def)

lemma norm_step_empty [simp]: "norm_step p [] = p"
  by (simp add: norm_step_def)

lemma foldl_norm_step_simple:
  "\<forall>n \<in> set ns. simple_name n \<Longrightarrow> foldl norm_step p ns = p @ map Name ns"
  by (induction ns arbitrary: p) auto

lemma split_slash_concat_sep:
  assumes "CHR ''/'' \<notin> set n" and "\<forall>m \<in> set ns. CHR ''/'' \<notin> set m"
  shows "split_slash (n @ concat (map (\<lambda>m. CHR ''/'' # m) ns)) = n # ns"
  using assms
proof (induction ns arbitrary: n)
  case Nil
  then show ?case by (simp add: split_slash_no_sep)
next
  case (Cons m ms)
  then have "split_slash (m @ concat (map (\<lambda>m. CHR ''/'' # m) ms)) = m # ms"
    by simp
  with Cons.prems show ?case
    by (simp add: split_slash_append_sep [where b = "m @ _", simplified] split_slash_no_sep)
qed

lemma simple_name_no_sep: "simple_name s \<Longrightarrow> CHR ''/'' \<notin> set s"
  by (simp add: simple_name_def)

lemma simple_name_hd: "simple_name s \<Longrightarrow> s \<noteq> [] \<and> hd s \<noteq> CHR ''/''"
  by (cases s) (auto simp: simple_name_def)

lemma hd_append_nonempty: "a \<noteq> [] \<Longrightarrow> hd (a @ b) = hd a"
  by (cases a) auto

text \<open>Resolving a rendered path of plain names gives the path back.\<close>

lemma resolve_render:
  assumes "\<forall>n \<in> set ns. simple_name n"
  shows "resolve cw (render ns) = Some (map Name ns)"
proof (cases ns)
  case Nil
  then show ?thesis by (simp add: resolve_def render_def)
next
  case (Cons n ms)
  with assms have "split_slash (n @ concat (map (\<lambda>m. CHR ''/'' # m) ms)) = n # ms"
    by (intro split_slash_concat_sep) (auto dest: simple_name_no_sep)
  with Cons assms show ?thesis
    by (simp add: resolve_def render_def foldl_norm_step_simple)
qed

text \<open>
  \<^verbatim>\<open>join(a, b)\<close> with a plain file name \<open>b\<close> resolves to the resolution of
  \<open>a\<close> extended by \<open>b\<close>, whether or not \<open>a\<close> ends in a separator.
\<close>

lemma resolve_posix_join:
  assumes a: "a \<noteq> []" and b: "simple_name b"
  shows "resolve cw (posix_join a b) = map_option (\<lambda>p. p @ [Name b]) (resolve cw a)"
proof -
  from b have hb: "b \<noteq> []" "hd b \<noteq> CHR ''/''" and sb: "split_slash b = [b]"
    by (auto dest: simple_name_hd simple_name_no_sep intro: split_slash_no_sep)
  show ?thesis
  proof (cases "last a = CHR ''/''")
    case True
    then obtain a' where a': "a = a' @ [CHR ''/'']"
      using a by (metis append_butlast_last_id)
    have "posix_join a b = a' @ CHR ''/'' # b"
      using True hb a' by (simp add: posix_join_def)
    moreover have "split_slash (a' @ CHR ''/'' # b) = split_slash a' @ [b]"
      by (simp add: split_slash_append_sep sb)
    moreover have "split_slash a = split_slash a' @ [[]]"
      using split_slash_append_sep [of a' "[]"] a' by simp
    moreover have "hd (a' @ CHR ''/'' # b) = hd a"
      using a' by (cases a') auto
    ultimately show ?thesis
      using a b by (simp add: resolve_def)
  next
    case False
    then have "posix_join a b = a @ CHR ''/'' # b"
      using hb a by (simp add: posix_join_def)
    then show ?thesis
      using a b by (simp add: resolve_def hd_append_nonempty split_slash_append_sep sb)
  qed
qed

lemma posix_join_nonempty: "b \<noteq> [] \<Longrightarrow> posix_join a b \<noteq> []"
  by (simp add: posix_join_def)

lemma resolve_nonempty: "s \<noteq> [] \<Longrightarrow> \<exists>p. resolve cw s = Some p"
  by (simp add: resolve_def)

end
