(* ===== verification/FileSystem.thy ===== *)
theory FileSystem
  imports Paths "HOL-Library.Sublist"
begin

text \<open>
  The operating-system calls the fetchers make, on the file system of the
  world: \<^verbatim>\<open>os.path.exists\<close>, \<^verbatim>\<open>os.mkdir\<close>, \<^verbatim>\<open>os.makedirs\<close>,
  writing, removing and renaming a file, and reading one. The file system is a
  map from resolved paths to nodes; it is well formed (\<open>wf_fs\<close>) when the root
  is a directory and the parent of every entry is a directory, as in a Unix
  tree. Every call keeps \<open>wf_fs\<close>, changes nothing but the file system, and
  \<^verbatim>\<open>makedirs\<close> creates exactly the missing directories on the way to its
  target.
\<close>

section \<open>Operations\<close>

definition os_lookup :: "world \<Rightarrow> string \<Rightarrow> node option" where
  "os_lookup w s = (case resolve (cwd w) s of None \<Rightarrow> None | Some p \<Rightarrow> fs w p)"

text \<open>\<^verbatim>\<open>os.path.exists(s)\<close>: false for the empty string and for missing entries.\<close>

definition os_exists :: "world \<Rightarrow> string \<Rightarrow> bool" where
  "os_exists w s \<longleftrightarrow> os_lookup w s \<noteq> None"

text \<open>\<^verbatim>\<open>os.mkdir\<close> on a resolved path.\<close>

definition mkdir :: "path \<Rightarrow> unit act" where
  "mkdir p w =
     (if fs w p \<noteq> None then (Inl (FilesystemError EEXIST p), w)
      else (case fs w (butlast p) of
              None \<Rightarrow> (Inl (FilesystemError ENOENT p), w)
            | Some (File _) \<Rightarrow> (Inl (FilesystemError ENOTDIR p), w)
            | Some Dir \<Rightarrow> (Inr (), w\<lparr>fs := (fs w)(p \<mapsto> Dir)\<rparr>)))"

fun is_eexist :: "error \<Rightarrow> bool" where
  "is_eexist (FilesystemError EEXIST _) = True"
| "is_eexist _ = False"

text \<open>
  \<^verbatim>\<open>os.makedirs(name)\<close> (with \<^verbatim>\<open>exist_ok=False\<close>), on the resolved path
  given reversed: when the parent is not the root and does not exist, create
  it first, ignoring a \<^verbatim>\<open>FileExistsError\<close> from that call (another process
  may have created it); then \<^verbatim>\<open>mkdir\<close> the path itself, which raises
  \<^verbatim>\<open>FileExistsError\<close> when it exists already.
\<close>

fun makedirs_rev :: "comp list \<Rightarrow> unit act" where
  "makedirs_rev [] w = mkdir [] w"
| "makedirs_rev (c # rp) w =
     (if rp \<noteq> [] \<and> fs w (rev rp) = None then
        (case makedirs_rev rp w of
           (Inl e, w1) \<Rightarrow> if is_eexist e then mkdir (rev (c # rp)) w1 else (Inl e, w1)
         | (Inr _, w1) \<Rightarrow> mkdir (rev (c # rp)) w1)
      else mkdir (rev (c # rp)) w)"

definition os_makedirs :: "string \<Rightarrow> unit act" where
  "os_makedirs s w =
     (case resolve (cwd w) s of
        None \<Rightarrow> (Inl (FilesystemError ENOENT []), w)
      | Some p \<Rightarrow> makedirs_rev (rev p) w)"

text \<open>
  \<^verbatim>\<open>os.makedirs(s, exist_ok=True)\<close>: as \<open>os_makedirs\<close>, but no error when
  the leaf is already a directory.
\<close>

definition os_makedirs_exist_ok :: "string \<Rightarrow> unit act" where
  "os_makedirs_exist_ok s w =
     (case resolve (cwd w) s of
        Some p \<Rightarrow> if fs w p = Some Dir then (Inr (), w) else os_makedirs s w
      | None \<Rightarrow> os_makedirs s w)"

text \<open>Creating or truncating a file and writing its content.\<close>

definition write_file :: "path \<Rightarrow> content \<Rightarrow> unit act" where
  "write_file p c w =
     (case fs w (butlast p) of
        None \<Rightarrow> (Inl (FilesystemError ENOENT p), w)
      | Some (File _) \<Rightarrow> (Inl (FilesystemError ENOTDIR p), w)
      | Some Dir \<Rightarrow>
          (if p = [] \<or> fs w p = Some Dir then (Inl (FilesystemError EISDIR p), w)
           else (Inr (), w\<lparr>fs := (fs w)(p \<mapsto> File c)\<rparr>)))"

text \<open>\<^verbatim>\<open>os.remove\<close>.\<close>

definition remove_file :: "path \<Rightarrow> unit act" where
  "remove_file p w =
     (case fs w p of
        None \<Rightarrow> (Inl (FilesystemError ENOENT p), w)
      | Some Dir \<Rightarrow> (Inl (FilesystemError EISDIR p), w)
      | Some (File _) \<Rightarrow> (Inr (), w\<lparr>fs := (fs w)(p := None)\<rparr>))"

text \<open>
  \<^verbatim>\<open>os.rename(src, dst)\<close> of a file: one atomic step that replaces a file at
  \<open>dst\<close>; a directory at \<open>dst\<close> is \<^verbatim>\<open>EISDIR\<close>.
\<close>

definition rename_file :: "path \<Rightarrow> path \<Rightarrow> unit act" where
  "rename_file src dst w =
     (case fs w src of
        None \<Rightarrow> (Inl (FilesystemError ENOENT src), w)
      | Some Dir \<Rightarrow> (Inl (FilesystemError EISDIR src), w)
      | Some (File c) \<Rightarrow>
          (if dst = [] \<or> fs w dst = Some Dir then (Inl (FilesystemError EISDIR dst), w)
           else if fs w (butlast dst) \<noteq> Some Dir then (Inl (FilesystemError ENOENT dst), w)
           else (Inr (), w\<lparr>fs := ((fs w)(src := None))(dst \<mapsto> File c)\<rparr>)))"

text \<open>\<^verbatim>\<open>open(s).read()\<close>.\<close>

definition read_file :: "string \<Rightarrow> content act" where
  "read_file s w =
     (case resolve (cwd w) s of
        None \<Rightarrow> (Inl (FilesystemError ENOENT []), w)
      | Some p \<Rightarrow>
          (case fs w p of
             None \<Rightarrow> (Inl (FilesystemError ENOENT p), w)
           | Some Dir \<Rightarrow> (Inl (FilesystemError EISDIR p), w)
           | Some (File c) \<Rightarrow> (Inr c, w)))"

section \<open>Well-formed file systems and visible paths\<close>

definition wf_fs :: "fsys \<Rightarrow> bool" where
  "wf_fs f \<longleftrightarrow> f [] = Some Dir \<and> (\<forall>p c n. f (p @ [c]) = Some n \<longrightarrow> f p = Some Dir)"

fun visible :: "comp \<Rightarrow> bool" where
  "visible (Name _) = True"
| "visible (Tmp _ _) = False"

definition visible_path :: "path \<Rightarrow> bool" where
  "visible_path p \<longleftrightarrow> list_all visible p"

text \<open>The world after a call differs from the one before only in its file system.\<close>

definition fs_only :: "world \<Rightarrow> world \<Rightarrow> bool" where
  "fs_only w w' \<longleftrightarrow>
     cwd w' = cwd w \<and> environ w' = environ w \<and> net w' = net w \<and>
     requests w' = requests w \<and> clock w' = clock w \<and> log w' = log w"

text \<open>
  What \<^verbatim>\<open>makedirs\<close> leaves behind when it succeeds: every missing prefix of
  its target is now a directory. It succeeds when nothing on the way is a
  plain file.
\<close>

definition mkdirs_closure :: "fsys \<Rightarrow> path \<Rightarrow> fsys" where
  "mkdirs_closure f p = (\<lambda>q. if prefix q p \<and> f q = None then Some Dir else f q)"

definition no_file_above :: "fsys \<Rightarrow> path \<Rightarrow> bool" where
  "no_file_above f p \<longleftrightarrow> (\<forall>q \<in> set (prefixes p). q \<noteq> p \<longrightarrow> f q \<in> {None, Some Dir})"

text \<open>A call that only adds directories on the way to \<open>p\<close>.\<close>

definition dirs_added :: "path \<Rightarrow> world \<Rightarrow> world \<Rightarrow> bool" where
  "dirs_added p w w' \<longleftrightarrow> fs_only w w' \<and>
     (\<forall>q. fs w' q \<noteq> fs w q \<longrightarrow> fs w q = None \<and> fs w' q = Some Dir \<and> prefix q p)"

text \<open>
  The tree invariant as a relation between the worlds before and after a
  call: a call keeps it when it maps well-formed file systems to well-formed
  ones.
\<close>

definition wf_kept :: "world \<Rightarrow> world \<Rightarrow> bool" where
  "wf_kept w w' \<longleftrightarrow> (wf_fs (fs w) \<longrightarrow> wf_fs (fs w'))"

section \<open>Lemmas\<close>

lemma fs_only_reflp: "reflp fs_only"
  by (simp add: reflp_def fs_only_def)

lemma fs_only_transp: "transp fs_only"
  by (auto simp: transp_def fs_only_def)

lemma mkdir_cases:
  "mkdir p w = (r, w') \<Longrightarrow>
     (r = Inr () \<and> fs w p = None \<and> fs w (butlast p) = Some Dir \<and> w' = w\<lparr>fs := (fs w)(p \<mapsto> Dir)\<rparr>)
   \<or> ((\<exists>e. r = Inl e) \<and> w' = w)"
  by (auto simp: mkdir_def split: if_splits option.splits node.splits)

lemma wf_fsD: "wf_fs f \<Longrightarrow> f (p @ [c]) = Some n \<Longrightarrow> f p = Some Dir"
  unfolding wf_fs_def by blast

lemma wf_fs_root: "wf_fs f \<Longrightarrow> f [] = Some Dir"
  by (simp add: wf_fs_def)

lemma wf_fs_prefix_dir:
  assumes "wf_fs f" and "f q \<noteq> None" and "strict_prefix q' q"
  shows "f q' = Some Dir"
  using assms(2,3)
proof (induction q rule: rev_induct)
  case Nil
  then show ?case by simp
next
  case (snoc c q)
  then have "f q = Some Dir" using assms(1) by (blast dest: wf_fsD)
  moreover have "q' = q \<or> strict_prefix q' q"
    using snoc.prems(2) by (metis prefix_order.dual_order.strict_iff_not prefix_snoc strict_prefix_def)
  ultimately show ?case using snoc.IH by auto
qed

lemma wf_fs_upd_dir:
  assumes "wf_fs f" and "f p = None" and "f (butlast p) = Some Dir" and "p \<noteq> []"
  shows "wf_fs (f(p \<mapsto> n))"
  unfolding wf_fs_def
proof (intro conjI allI impI)
  show "(f(p \<mapsto> n)) [] = Some Dir" using assms by (auto simp: wf_fs_def)
next
  fix q c m
  assume h: "(f(p \<mapsto> n)) (q @ [c]) = Some m"
  show "(f(p \<mapsto> n)) q = Some Dir"
  proof (cases "q @ [c] = p")
    case True
    then show ?thesis using assms(3) by (auto simp: butlast_append dest: sym)
  next
    case False
    with h have "f (q @ [c]) = Some m" by simp
    then have "f q = Some Dir" by (rule wf_fsD [OF assms(1)])
    with assms(2) show ?thesis by auto
  qed
qed

lemma no_file_aboveD:
  "no_file_above f p \<Longrightarrow> strict_prefix q p \<Longrightarrow> f q \<in> {None, Some Dir}"
  by (auto simp: no_file_above_def strict_prefix_def)

lemma no_file_above_snoc: "no_file_above f (p @ [c]) \<Longrightarrow> no_file_above f p"
  by (auto simp: no_file_above_def prefix_snoc)

lemma mkdirs_closure_snoc:
  assumes "f (p @ [c]) = None"
  shows "(mkdirs_closure f p)(p @ [c] \<mapsto> Dir) = mkdirs_closure f (p @ [c])"
  using assms by (auto simp: mkdirs_closure_def fun_eq_iff prefix_snoc)

lemma mkdirs_closure_existing:
  assumes "wf_fs f" and "f p \<noteq> None" and "f (p @ [c]) = None"
  shows "f(p @ [c] \<mapsto> Dir) = mkdirs_closure f (p @ [c])"
proof -
  have "prefix q p \<Longrightarrow> f q \<noteq> None" for q
    using assms(1,2) wf_fs_prefix_dir [OF assms(1,2)] by (cases "q = p") (auto simp: strict_prefix_def)
  then show ?thesis
    using assms(3) by (auto simp: mkdirs_closure_def fun_eq_iff prefix_snoc)
qed

lemma makedirs_rev_ok:
  assumes "wf_fs (fs w)" and "fs w (rev rp) = None" and "no_file_above (fs w) (rev rp)"
  shows "makedirs_rev rp w = (Inr (), w\<lparr>fs := mkdirs_closure (fs w) (rev rp)\<rparr>)"
  using assms
proof (induction rp w rule: makedirs_rev.induct)
  case (1 w)
  then show ?case by (simp add: wf_fs_root)
next
  case (2 c rp w)
  let ?p = "rev rp @ [c]"
  show ?case
  proof (cases "rp \<noteq> [] \<and> fs w (rev rp) = None")
    case True
    with "2.prems" have "makedirs_rev rp w = (Inr (), w\<lparr>fs := mkdirs_closure (fs w) (rev rp)\<rparr>)"
      by (intro "2.IH") (auto dest: no_file_above_snoc)
    moreover have "mkdirs_closure (fs w) (rev rp) ?p = None"
      using "2.prems"(2) by (simp add: mkdirs_closure_def)
    moreover have "mkdirs_closure (fs w) (rev rp) (rev rp) = Some Dir"
      using True by (simp add: mkdirs_closure_def)
    ultimately show ?thesis
      using True "2.prems"(2) by (simp add: mkdir_def mkdirs_closure_snoc)
  next
    case False
    show ?thesis
    proof (cases "rp = []")
      case True
      with "2.prems" mkdirs_closure_existing [of "fs w" "[]" c] show ?thesis
        by (simp add: mkdir_def wf_fs_root)
    next
      case nonempty: False
      with False have "fs w (rev rp) \<noteq> None" by simp
      moreover have "strict_prefix (rev rp) ?p" by (simp add: strict_prefix_def)
      ultimately have "fs w (rev rp) = Some Dir"
        using "2.prems"(3) by (auto dest: no_file_aboveD)
      with False "2.prems" show ?thesis
        by (simp add: mkdir_def mkdirs_closure_existing)
    qed
  qed
qed

lemma wf_fs_upd_file:
  assumes "wf_fs f" and "p \<noteq> []" and "f (butlast p) = Some Dir" and "f p \<noteq> Some Dir"
  shows "wf_fs (f(p \<mapsto> File c))"
  unfolding wf_fs_def
proof (intro conjI allI impI)
  show "(f(p \<mapsto> File c)) [] = Some Dir" using assms by (auto simp: wf_fs_def)
next
  fix q d m
  assume h: "(f(p \<mapsto> File c)) (q @ [d]) = Some m"
  show "(f(p \<mapsto> File c)) q = Some Dir"
  proof (cases "q @ [d] = p")
    case True
    then show ?thesis using assms(3,4) by (auto simp: butlast_append dest: sym)
  next
    case False
    with h have "f (q @ [d]) = Some m" by simp
    then have "f q = Some Dir" by (rule wf_fsD [OF assms(1)])
    with assms(4) show ?thesis by auto
  qed
qed

lemma wf_fs_remove_file:
  assumes "wf_fs f" and "f p = Some (File x)"
  shows "wf_fs (f(p := None))"
  unfolding wf_fs_def
proof (intro conjI allI impI)
  show "(f(p := None)) [] = Some Dir" using assms by (cases p) (auto simp: wf_fs_def)
next
  fix q d m
  assume h: "(f(p := None)) (q @ [d]) = Some m"
  then have "f q = Some Dir" by (auto intro: wf_fsD [OF assms(1)] split: if_splits)
  with assms(2) show "(f(p := None)) q = Some Dir" by auto
qed

lemma mkdir_wf: "wf_fs (fs w) \<Longrightarrow> mkdir p w = (r, w') \<Longrightarrow> wf_fs (fs w')"
  by (auto dest!: mkdir_cases intro!: wf_fs_upd_dir simp: wf_fs_root)

lemma makedirs_rev_wf: "wf_fs (fs w) \<Longrightarrow> makedirs_rev rp w = (r, w') \<Longrightarrow> wf_fs (fs w')"
  by (induction rp w arbitrary: r w' rule: makedirs_rev.induct)
     (auto simp del: rev.simps split: if_splits prod.splits sum.splits intro: mkdir_wf)

lemma write_file_wf: "wf_fs (fs w) \<Longrightarrow> write_file p c w = (r, w') \<Longrightarrow> wf_fs (fs w')"
  by (auto simp: write_file_def split: option.splits node.splits if_splits intro!: wf_fs_upd_file)

lemma remove_file_wf: "wf_fs (fs w) \<Longrightarrow> remove_file p w = (r, w') \<Longrightarrow> wf_fs (fs w')"
  by (auto simp: remove_file_def split: option.splits node.splits intro: wf_fs_remove_file)

lemma rename_file_wf:
  assumes "wf_fs (fs w)" and "rename_file src dst w = (r, w')"
  shows "wf_fs (fs w')"
proof (cases "\<exists>c. fs w src = Some (File c) \<and> dst \<noteq> [] \<and> fs w dst \<noteq> Some Dir \<and> fs w (butlast dst) = Some Dir")
  case True
  then obtain c where c: "fs w src = Some (File c)" and d: "dst \<noteq> []" "fs w dst \<noteq> Some Dir"
    "fs w (butlast dst) = Some Dir" by blast
  from assms(2) c d have "w' = w\<lparr>fs := ((fs w)(src := None))(dst \<mapsto> File c)\<rparr>"
    by (simp add: rename_file_def)
  then have w': "fs w' = ((fs w)(src := None))(dst \<mapsto> File c)" by simp
  have wf1: "wf_fs ((fs w)(src := None))" using assms(1) c by (rule wf_fs_remove_file)
  have "butlast dst \<noteq> src" using c d(3) by auto
  with d have "((fs w)(src := None)) (butlast dst) = Some Dir" "((fs w)(src := None)) dst \<noteq> Some Dir"
    by auto
  with wf1 d(1) show ?thesis unfolding w' by (rule wf_fs_upd_file)
next
  case False
  with assms show ?thesis
    by (auto simp: rename_file_def split: option.splits node.splits if_splits)
qed

lemma makedirs_rev_effect:
  "makedirs_rev rp w = (r, w') \<Longrightarrow>
     fs_only w w' \<and> (\<forall>q. fs w' q \<noteq> fs w q \<longrightarrow> fs w q = None \<and> fs w' q = Some Dir \<and> prefix q (rev rp))"
proof (induction rp w arbitrary: r w' rule: makedirs_rev.induct)
  case (1 w)
  then show ?case by (auto dest!: mkdir_cases simp: fs_only_def)
next
  case (2 c rp w)
  let ?p = "rev (c # rp)"
  have step: "mkdir ?p w1 = (r, w') \<Longrightarrow> fs_only w1 w' \<and>
     (\<forall>q. fs w' q \<noteq> fs w1 q \<longrightarrow> fs w1 q = None \<and> fs w' q = Some Dir \<and> prefix q ?p)" for w1
    by (auto dest!: mkdir_cases simp: fs_only_def split: if_splits)
  show ?case
  proof (cases "rp \<noteq> [] \<and> fs w (rev rp) = None")
    case True
    then obtain r1 w1 where m: "makedirs_rev rp w = (r1, w1)" by fastforce
    with True "2.IH" have ih: "fs_only w w1"
      "\<forall>q. fs w1 q \<noteq> fs w q \<longrightarrow> fs w q = None \<and> fs w1 q = Some Dir \<and> prefix q (rev rp)"
      by blast+
    have pre: "prefix q (rev rp) \<Longrightarrow> prefix q ?p" for q by auto
    show ?thesis
    proof (cases "r1 = Inr () \<or> (\<exists>e. r1 = Inl e \<and> is_eexist e)")
      case True
      with m "2.prems" \<open>rp \<noteq> [] \<and> _\<close> have "mkdir ?p w1 = (r, w')"
        by (auto split: sum.splits if_splits)
      from step [OF this] ih pre show ?thesis
        by (auto simp: fs_only_def) (metis)+
    next
      case False
      with m "2.prems" \<open>rp \<noteq> [] \<and> _\<close> have "r = r1" "w' = w1"
        by (auto split: sum.splits if_splits)
      with ih pre show ?thesis by blast
    qed
  next
    case False
    with "2.prems" have "mkdir ?p w = (r, w')" by simp
    from step [OF this] show ?thesis by blast
  qed
qed

lemma norm_step_visible: "visible_path p \<Longrightarrow> visible_path (norm_step p s)"
  by (auto simp: norm_step_def visible_path_def list_all_iff dest: in_set_butlastD)

lemma resolve_visible:
  assumes "visible_path cw" and "resolve cw s = Some p"
  shows "visible_path p"
proof -
  have "visible_path q \<Longrightarrow> visible_path (foldl norm_step q xs)" for q xs
    by (induction xs arbitrary: q) (auto intro: norm_step_visible)
  with assms show ?thesis by (auto simp: resolve_def visible_path_def split: if_splits)
qed

lemma makedirs_rev_target:
  "makedirs_rev rp w = (Inr (), w') \<Longrightarrow> fs w' (rev rp) = Some Dir"
proof (induction rp w arbitrary: w' rule: makedirs_rev.induct)
  case (1 w)
  then show ?case by (auto dest!: mkdir_cases)
next
  case (2 c rp w)
  then show ?case
    by (auto dest!: mkdir_cases split: if_splits prod.splits sum.splits simp del: rev.simps)
qed

lemma os_makedirs_effect:
  assumes "os_makedirs s w = (r, w')"
  shows "fs_only w w' \<and>
    (\<forall>q. fs w' q \<noteq> fs w q \<longrightarrow> fs w q = None \<and> fs w' q = Some Dir \<and>
       (\<exists>p. resolve (cwd w) s = Some p \<and> prefix q p)) \<and>
    (r = Inr () \<longrightarrow> (\<exists>p. resolve (cwd w) s = Some p \<and> fs w' p = Some Dir))"
proof (cases "resolve (cwd w) s")
  case None
  with assms show ?thesis by (auto simp: os_makedirs_def fs_only_def)
next
  case (Some p)
  with assms have m: "makedirs_rev (rev p) w = (r, w')" by (simp add: os_makedirs_def)
  from makedirs_rev_effect [OF m] have e: "fs_only w w'"
    "\<forall>q. fs w' q \<noteq> fs w q \<longrightarrow> fs w q = None \<and> fs w' q = Some Dir \<and> prefix q p"
    by simp_all
  have "r = Inr () \<Longrightarrow> fs w' p = Some Dir" using makedirs_rev_target [of "rev p"] m by auto
  with e Some show ?thesis by auto
qed

lemma os_exists_resolve:
  "os_exists w s \<longleftrightarrow> (\<exists>p. resolve (cwd w) s = Some p \<and> fs w p \<noteq> None)"
  by (auto simp: os_exists_def os_lookup_def split: option.splits)

lemma os_makedirs_exist_ok_absent:
  "\<not> os_exists w s \<Longrightarrow> os_makedirs_exist_ok s w = os_makedirs s w"
  by (auto simp: os_makedirs_exist_ok_def os_exists_resolve split: option.splits)

lemma os_makedirs_exist_ok_effect:
  assumes "os_makedirs_exist_ok s w = (r, w')"
  shows "fs_only w w' \<and>
    (\<forall>q. fs w' q \<noteq> fs w q \<longrightarrow> fs w q = None \<and> fs w' q = Some Dir \<and>
       (\<exists>p. resolve (cwd w) s = Some p \<and> prefix q p))"
proof (cases "\<exists>p. resolve (cwd w) s = Some p \<and> fs w p = Some Dir")
  case True
  with assms show ?thesis by (auto simp: os_makedirs_exist_ok_def fs_only_def)
next
  case False
  with assms have "os_makedirs s w = (r, w')"
    by (auto simp: os_makedirs_exist_ok_def split: option.splits)
  from os_makedirs_effect [OF this] show ?thesis by blast
qed

lemma os_exists_join:
  assumes "resolve (cwd w) loc = Some d" and "simple_name f"
  shows "os_exists w (posix_join loc f) \<longleftrightarrow> fs w (d @ [Name f]) \<noteq> None"
proof -
  have "loc \<noteq> []" using assms(1) by (auto simp: resolve_def)
  with assms show ?thesis by (simp add: os_exists_resolve resolve_posix_join)
qed

lemma dirs_added_refl [simp]: "dirs_added p w w"
  by (simp add: dirs_added_def fs_only_def)

lemma read_file_world: "read_file s w = (r, w') \<Longrightarrow> w' = w"
  by (auto simp: read_file_def split: option.splits node.splits)

lemma read_file_pair: "read_file s w = (fst (read_file s w), w)"
  by (metis prod.collapse read_file_world)

lemma fs_only_trans: "fs_only w w1 \<Longrightarrow> fs_only w1 w2 \<Longrightarrow> fs_only w w2"
  by (simp add: fs_only_def)

lemma fs_only_refl [simp]: "fs_only w w"
  by (simp add: fs_only_def)

lemma dirs_added_trans:
  assumes "dirs_added p w w1" and "dirs_added p w1 w2"
  shows "dirs_added p w w2"
  using assms by (auto simp: dirs_added_def fs_only_def) metis+

lemma dirs_added_visible: "dirs_added p w w' \<Longrightarrow> fs w q \<noteq> None \<Longrightarrow> fs w' q \<noteq> None"
  unfolding dirs_added_def by (metis option.simps(3))

lemma visible_path_prefix: "prefix q p \<Longrightarrow> visible_path p \<Longrightarrow> visible_path q"
  by (auto simp: visible_path_def prefix_def)

lemma os_exists_mono:
  assumes "os_exists w s" and "cwd w' = cwd w" and "visible_path (cwd w)"
    and "\<And>p. visible_path p \<Longrightarrow> fs w p \<noteq> None \<Longrightarrow> fs w' p \<noteq> None"
  shows "os_exists w' s"
  using assms resolve_visible [OF assms(3)] by (auto simp: os_exists_resolve)

lemma wf_kept_reflp [simp]: "reflp wf_kept"
  by (simp add: reflp_def wf_kept_def)

lemma wf_kept_transp [simp]: "transp wf_kept"
  by (auto simp: transp_def wf_kept_def)

lemma os_makedirs_wf: "keeps wf_kept (os_makedirs s)"
  by (rule keepsI)
     (auto simp: os_makedirs_def wf_kept_def split: option.splits intro: makedirs_rev_wf)

lemma read_file_wf: "keeps wf_kept (read_file s)"
  by (rule keepsI) (auto dest: read_file_world simp: wf_kept_def)

end
