(* ===== verification/Downloader.thy ===== *)
theory Downloader
  imports FileSystem
begin

text \<open>
  The downloader \<^verbatim>\<open>_fetch_remote(meta, dirname)\<close> of \<^verbatim>\<open>MDAnalysisData.base\<close>,
  which the fetchers import but which is not among the repository's sources
  here; it is modelled from the spec (section 4.2). One request to the
  content host consumes the next answer the host has queued for the URL and
  is logged; a request that gets no answer costs the transport timeout. A
  body is written to a private temporary file next to the target, its
  SHA-256 digest compared with the expected checksum, and on a match the
  temporary file is renamed onto the target in one step; on a mismatch it is
  removed and \<open>IntegrityError\<close> raised. Transient failures are retried up to
  \<open>max_attempts\<close> requests in all, sleeping \<open>2 ^ k\<close> seconds after the
  \<open>k\<close>-th failed one; file-system errors are not retried.
\<close>

section \<open>Remote metadata and configuration\<close>

text \<open>\<^verbatim>\<open>RemoteFileMetadata(filename, url, checksum)\<close>.\<close>

record remote_meta =
  filename :: string
  url :: string
  checksum :: string

text \<open>
  The fixed parameters of a process: the hash function (SHA-256, hex digest),
  the process id that names its temporary files, the retry bound and the
  transport timeout in seconds.
\<close>

record cfg =
  sha256 :: "content \<Rightarrow> string"
  pid :: nat
  max_attempts :: nat
  timeout :: nat

section \<open>The content host\<close>

fun is_ok :: "reply \<Rightarrow> bool" where
  "is_ok (Ok _) = True"
| "is_ok _ = False"

text \<open>One GET request: an empty queue is a refused connection.\<close>

definition http_get :: "cfg \<Rightarrow> string \<Rightarrow> world \<Rightarrow> reply \<times> world" where
  "http_get c u w =
     (let r = (case net w u of [] \<Rightarrow> Reset | x # _ \<Rightarrow> x)
      in (r, w\<lparr>net := (net w)(u := tl (net w u)), requests := requests w @ [u],
               clock := clock w + (if r = Stall then timeout c else 0)\<rparr>))"

definition backoff :: "nat \<Rightarrow> nat" where
  "backoff k = 2 ^ k"

section \<open>Downloading one file\<close>

definition tmp_path :: "cfg \<Rightarrow> remote_meta \<Rightarrow> path \<Rightarrow> path" where
  "tmp_path c m d = d @ [Tmp (pid c) (filename m)]"

definition final_path :: "remote_meta \<Rightarrow> path \<Rightarrow> path" where
  "final_path m d = d @ [Name (filename m)]"

text \<open>
  Write the body to the temporary file, verify it, and place it atomically;
  on every failure after the write the temporary file is removed.
\<close>

definition store_verified :: "cfg \<Rightarrow> remote_meta \<Rightarrow> path \<Rightarrow> content \<Rightarrow> path act" where
  "store_verified c m d body =
     est_bind (write_file (tmp_path c m d) body) (\<lambda>_.
       if sha256 c body \<noteq> checksum m then
         est_bind (remove_file (tmp_path c m d)) (\<lambda>_.
           est_raise (IntegrityError (filename m) (checksum m) (sha256 c body)))
       else
         (\<lambda>w. case rename_file (tmp_path c m d) (final_path m d) w of
                (Inl e, w1) \<Rightarrow> est_bind (remove_file (tmp_path c m d)) (\<lambda>_. est_raise e) w1
              | (Inr _, w1) \<Rightarrow> (Inr (final_path m d), w1)))"

text \<open>
  The retry loop: \<open>n\<close> requests left, \<open>k\<close> made so far. No sleep follows the
  last failed request.
\<close>

fun fetch_attempts :: "cfg \<Rightarrow> remote_meta \<Rightarrow> path \<Rightarrow> nat \<Rightarrow> nat \<Rightarrow> path act" where
  "fetch_attempts c m d 0 k w = (Inl (TransientFetchError (url m) k), w)"
| "fetch_attempts c m d (Suc n) k w =
     (case http_get c (url m) w of
        (Ok body, w1) \<Rightarrow> store_verified c m d body w1
      | (_, w1) \<Rightarrow>
          if n = 0 then (Inl (TransientFetchError (url m) (Suc k)), w1)
          else fetch_attempts c m d n (Suc k) (w1\<lparr>clock := clock w1 + backoff k\<rparr>))"

text \<open>
  \<^verbatim>\<open>_fetch_remote(meta, dirname, force)\<close>: the caching fast path returns an
  existing target without a request unless \<open>force\<close> is set.
\<close>

definition fetch_remote :: "cfg \<Rightarrow> remote_meta \<Rightarrow> string \<Rightarrow> bool \<Rightarrow> path act" where
  "fetch_remote c m dirname force w =
     (case resolve (cwd w) dirname of
        None \<Rightarrow> (Inl (FilesystemError ENOENT []), w)
      | Some d \<Rightarrow>
          if \<not> force \<and> fs w (final_path m d) \<noteq> None then (Inr (final_path m d), w)
          else fetch_attempts c m d (max_attempts c) 0 w)"

text \<open>The three ways a download can leave the file system.\<close>

definition dl_effect :: "cfg \<Rightarrow> remote_meta \<Rightarrow> path \<Rightarrow> fsys \<Rightarrow> fsys \<Rightarrow> bool" where
  "dl_effect c m d f f' \<longleftrightarrow>
     f' = f \<or>
     (f (tmp_path c m d) \<noteq> Some Dir \<and> f d = Some Dir \<and>
       (f' = f(tmp_path c m d := None) \<or>
        (\<exists>b. sha256 c b = checksum m \<and> f (final_path m d) \<noteq> Some Dir \<and>
             f' = (f(tmp_path c m d := None))(final_path m d \<mapsto> File b))))"

text \<open>
  A host that serves \<open>m\<close> within \<open>n\<close> requests: among its next \<open>n\<close>
  answers for the URL, the first body is the right one (only transient
  failures before it).
\<close>

fun serves :: "cfg \<Rightarrow> remote_meta \<Rightarrow> nat \<Rightarrow> reply list \<Rightarrow> bool" where
  "serves c m 0 q = False"
| "serves c m (Suc n) [] = False"
| "serves c m (Suc n) (Ok b # q) = (sha256 c b = checksum m)"
| "serves c m (Suc n) (x # q) = serves c m n q"

section \<open>Lemmas\<close>

lemma tmp_ne_final [simp]: "tmp_path c m d \<noteq> final_path m d"
  by (simp add: tmp_path_def final_path_def)

lemma butlast_tmp [simp]: "butlast (tmp_path c m d) = d"
  by (simp add: tmp_path_def)

lemma butlast_final [simp]: "butlast (final_path m d) = d"
  by (simp add: final_path_def)

lemma tmp_ne_dir [simp]: "tmp_path c m d \<noteq> d" "d \<noteq> tmp_path c m d"
  by (simp_all add: tmp_path_def)

lemma final_ne_dir [simp]: "final_path m d \<noteq> d" "d \<noteq> final_path m d"
  by (simp_all add: final_path_def)

lemma final_nonempty [simp]: "final_path m d \<noteq> []" "tmp_path c m d \<noteq> []"
  by (simp_all add: final_path_def tmp_path_def)

lemma store_verified_cases:
  assumes "store_verified c m d body w = (r, w')"
  shows "fs_only w w' \<and> dl_effect c m d (fs w) (fs w') \<and>
    (\<forall>p. r = Inr p \<longrightarrow> p = final_path m d \<and> sha256 c body = checksum m \<and>
       fs w' p = Some (File body))"
  using assms
  by (auto simp: store_verified_def est_bind_def write_file_def remove_file_def rename_file_def
      fs_only_def dl_effect_def split: option.splits node.splits if_splits sum.splits prod.splits)

lemma store_verified_ok:
  assumes "fs w d = Some Dir" and "fs w (tmp_path c m d) \<noteq> Some Dir"
    and "fs w (final_path m d) \<noteq> Some Dir" and "sha256 c body = checksum m"
  shows "store_verified c m d body w =
    (Inr (final_path m d), w\<lparr>fs := ((fs w)(tmp_path c m d := None))(final_path m d \<mapsto> File body)\<rparr>)"
  using assms
  by (simp add: store_verified_def est_bind_def write_file_def rename_file_def)

lemma store_verified_mismatch:
  assumes "fs w d = Some Dir" and "fs w (tmp_path c m d) \<noteq> Some Dir"
    and "sha256 c body \<noteq> checksum m"
  shows "store_verified c m d body w =
    (Inl (IntegrityError (filename m) (checksum m) (sha256 c body)),
     w\<lparr>fs := (fs w)(tmp_path c m d := None)\<rparr>)"
  using assms
  by (simp add: store_verified_def est_bind_def write_file_def remove_file_def)

lemma http_get_fields:
  assumes "http_get c u w = (x, w1)"
  shows "fs w1 = fs w \<and> cwd w1 = cwd w \<and> environ w1 = environ w \<and>
    requests w1 = requests w @ [u] \<and> clock w \<le> clock w1 \<and> clock w1 \<le> clock w + timeout c"
  using assms by (auto simp: http_get_def Let_def)

lemma http_get_reply:
  "net w u = x # xs \<Longrightarrow> http_get c u w = (x, w\<lparr>net := (net w)(u := xs), requests := requests w @ [u],
     clock := clock w + (if x = Stall then timeout c else 0)\<rparr>)"
  by (simp add: http_get_def)

lemma dl_effect_refl [simp]: "dl_effect c m d f f"
  by (simp add: dl_effect_def)

lemma fetch_attempts_fs:
  "fetch_attempts c m d n k w = (r, w') \<Longrightarrow>
     cwd w' = cwd w \<and> environ w' = environ w \<and> dl_effect c m d (fs w) (fs w')"
proof (induction c m d n k w arbitrary: r w' rule: fetch_attempts.induct)
  case (1 c m d k w)
  then show ?case by simp
next
  case (2 c m d n k w)
  obtain x w1 where h: "http_get c (url m) w = (x, w1)" by fastforce
  note f1 = http_get_fields [OF h]
  show ?case
  proof (cases "is_ok x")
    case True
    then obtain body where "x = Ok body" by (cases x) auto
    with h "2.prems" have "store_verified c m d body w1 = (r, w')" by simp
    from store_verified_cases [OF this] f1 show ?thesis
      by (auto simp: fs_only_def)
  next
    case False
    show ?thesis
    proof (cases "n = 0")
      case True
      with False h "2.prems" have "w' = w1" by (cases x) auto
      with f1 show ?thesis by simp
    next
      case nz: False
      with False h "2.prems"
      have "fetch_attempts c m d n (Suc k) (w1\<lparr>clock := clock w1 + backoff k\<rparr>) = (r, w')"
        by (cases x) auto
      moreover have "fetch_attempts c m d n (Suc k) (w1\<lparr>clock := clock w1 + backoff k\<rparr>) = (r, w') \<Longrightarrow>
          cwd w' = cwd w1 \<and> environ w' = environ w1 \<and> dl_effect c m d (fs w1) (fs w')"
        using "2.IH" [OF h [symmetric]] False nz by (cases x) auto
      ultimately show ?thesis using f1 by simp
    qed
  qed
qed

lemma backoff_mono: "k \<le> j \<Longrightarrow> backoff k \<le> backoff j"
  unfolding backoff_def by (rule power_increasing) simp_all

lemma fetch_attempts_induct_step [case_names zero step]:
  fixes P :: "cfg \<Rightarrow> remote_meta \<Rightarrow> path \<Rightarrow> nat \<Rightarrow> nat \<Rightarrow> world \<Rightarrow> bool"
  assumes zero: "\<And>c m d k w. P c m d 0 k w"
    and step: "\<And>c m d n k w.
      (\<And>x w1. http_get c (url m) w = (x, w1) \<Longrightarrow> \<not> is_ok x \<Longrightarrow> n \<noteq> 0 \<Longrightarrow>
         P c m d n (Suc k) (w1\<lparr>clock := clock w1 + backoff k\<rparr>)) \<Longrightarrow> P c m d (Suc n) k w"
  shows "P c m d n k w"
proof (induction c m d n k w rule: fetch_attempts.induct)
  case (1 c m d k w)
  show ?case by (rule zero)
next
  case (2 c m d n k w)
  show ?case
  proof (rule step)
    fix x w1
    assume "http_get c (url m) w = (x, w1)" and "\<not> is_ok x" and "n \<noteq> 0"
    then show "P c m d n (Suc k) (w1\<lparr>clock := clock w1 + backoff k\<rparr>)"
      using "2.IH" by (cases x) auto
  qed
qed

lemma fetch_attempts_Suc_cases:
  assumes "fetch_attempts c m d (Suc n) k w = (r, w')" and "http_get c (url m) w = (x, w1)"
  obtains (ok) body where "x = Ok body" and "store_verified c m d body w1 = (r, w')"
    | (last) "\<not> is_ok x" and "n = 0" and "r = Inl (TransientFetchError (url m) (Suc k))" and "w' = w1"
    | (retry) "\<not> is_ok x" and "n \<noteq> 0"
      and "fetch_attempts c m d n (Suc k) (w1\<lparr>clock := clock w1 + backoff k\<rparr>) = (r, w')"
  using assms by (cases x) (auto split: if_splits)

lemma fetch_attempts_requests:
  "fetch_attempts c m d n k w = (r, w') \<Longrightarrow>
     \<exists>j \<le> n. requests w' = requests w @ replicate j (url m)"
proof (induction c m d n k w arbitrary: r w' rule: fetch_attempts_induct_step)
  case (zero c m d k w)
  then show ?case by auto
next
  case (step c m d n k w)
  obtain x w1 where h: "http_get c (url m) w = (x, w1)" by fastforce
  note f1 = http_get_fields [OF h]
  from step.prems h show ?case
  proof (cases rule: fetch_attempts_Suc_cases)
    case (ok body)
    with f1 show ?thesis
      by (intro exI [of _ 1]) (auto dest!: store_verified_cases simp: fs_only_def)
  next
    case last
    with f1 show ?thesis by (intro exI [of _ 1]) auto
  next
    case retry
    with step.IH [OF h] obtain j where "j \<le> n" "requests w' = requests w1 @ replicate j (url m)"
      by fastforce
    with f1 show ?thesis
      by (intro exI [of _ "Suc j"]) (simp add: replicate_append_same)
  qed
qed

lemma fetch_attempts_clock:
  "fetch_attempts c m d n k w = (r, w') \<Longrightarrow>
     clock w \<le> clock w' \<and> clock w' + backoff k \<le> clock w + n * timeout c + backoff (k + n)"
proof (induction c m d n k w arbitrary: r w' rule: fetch_attempts_induct_step)
  case (zero c m d k w)
  then show ?case by simp
next
  case (step c m d n k w)
  obtain x w1 where h: "http_get c (url m) w = (x, w1)" by fastforce
  note f1 = http_get_fields [OF h]
  have mono: "backoff k \<le> backoff (k + Suc n)"
    by (rule backoff_mono) simp
  from step.prems h show ?case
  proof (cases rule: fetch_attempts_Suc_cases)
    case (ok body)
    with f1 mono show ?thesis by (auto dest!: store_verified_cases simp: fs_only_def)
  next
    case last
    with f1 mono show ?thesis by auto
  next
    case retry
    with step.IH [OF h] have
      "clock w1 + backoff k \<le> clock w'"
      "clock w' + backoff (Suc k) \<le> clock w1 + backoff k + n * timeout c + backoff (Suc k + n)"
      by fastforce+
    moreover have "backoff (Suc k) = 2 * backoff k" by (simp add: backoff_def)
    ultimately show ?thesis using f1 by simp
  qed
qed

lemma fetch_attempts_result:
  "fetch_attempts c m d n k w = (Inr p, w') \<Longrightarrow>
     p = final_path m d \<and> (\<exists>b. fs w' p = Some (File b) \<and> sha256 c b = checksum m)"
proof (induction c m d n k w arbitrary: p w' rule: fetch_attempts_induct_step)
  case (zero c m d k w)
  then show ?case by simp
next
  case (step c m d n k w)
  obtain x w1 where h: "http_get c (url m) w = (x, w1)" by fastforce
  from step.prems h show ?case
  proof (cases rule: fetch_attempts_Suc_cases)
    case (ok body)
    then show ?thesis by (auto dest!: store_verified_cases)
  next
    case last
    then show ?thesis by simp
  next
    case retry
    then show ?thesis using step.IH [OF h] by blast
  qed
qed

lemma dl_effect_wf:
  assumes "wf_fs f" and "dl_effect c m d f f'"
  shows "wf_fs f'"
proof -
  have rm: "wf_fs (f(tmp_path c m d := None))" if "f (tmp_path c m d) \<noteq> Some Dir"
  proof (cases "f (tmp_path c m d)")
    case None
    then have "f(tmp_path c m d := None) = f" by auto
    with assms(1) show ?thesis by simp
  next
    case (Some n)
    with that obtain x where "f (tmp_path c m d) = Some (File x)" by (cases n) auto
    with assms(1) show ?thesis by (rule wf_fs_remove_file)
  qed
  show ?thesis
    using assms(2) unfolding dl_effect_def
  proof (elim disjE conjE exE)
    assume "f' = f" with assms(1) show ?thesis by simp
  next
    assume "f (tmp_path c m d) \<noteq> Some Dir" "f' = f(tmp_path c m d := None)"
    with rm show ?thesis by simp
  next
    fix b
    assume t: "f (tmp_path c m d) \<noteq> Some Dir" and d: "f d = Some Dir"
      and fin: "f (final_path m d) \<noteq> Some Dir"
      and f': "f' = (f(tmp_path c m d := None))(final_path m d \<mapsto> File b)"
    have "wf_fs ((f(tmp_path c m d := None))(final_path m d \<mapsto> File b))"
      by (rule wf_fs_upd_file) (use rm [OF t] d fin in \<open>simp_all\<close>)
    with f' show ?thesis by simp
  qed
qed

lemma tmp_not_visible [simp]: "\<not> visible_path (tmp_path c m d)"
  by (simp add: tmp_path_def visible_path_def)

lemma dl_effect_visible:
  assumes "dl_effect c m d f f'" and "visible_path p"
  shows "f p \<noteq> None \<Longrightarrow> f' p \<noteq> None"
    and "f' p \<noteq> f p \<Longrightarrow> p = final_path m d \<and> (\<exists>b. f' p = Some (File b) \<and> sha256 c b = checksum m)"
proof -
  have "p \<noteq> tmp_path c m d" using assms(2) by auto
  then show "f p \<noteq> None \<Longrightarrow> f' p \<noteq> None"
    and "f' p \<noteq> f p \<Longrightarrow> p = final_path m d \<and> (\<exists>b. f' p = Some (File b) \<and> sha256 c b = checksum m)"
    using assms(1) by (auto simp: dl_effect_def split: if_splits)
qed

lemma fetch_attempts_succeeds:
  assumes "net w (url m) = xs @ Ok body # ys" and "list_all (\<lambda>x. \<not> is_ok x) xs" and "length xs < n"
    and "fs w d = Some Dir" and "fs w (tmp_path c m d) \<noteq> Some Dir"
    and "fs w (final_path m d) \<noteq> Some Dir" and "sha256 c body = checksum m"
  shows "\<exists>w'. fetch_attempts c m d n k w = (Inr (final_path m d), w')"
  using assms
proof (induction xs arbitrary: n k w)
  case Nil
  then obtain n' where "n = Suc n'" by (cases n) auto
  with Nil.prems show ?case by (simp add: http_get_reply store_verified_ok)
next
  case (Cons x xs)
  then obtain n' where n: "n = Suc n'" and "n' \<noteq> 0" and "length xs < n'"
    by (cases n) auto
  let ?w1 = "w\<lparr>net := (net w)(url m := xs @ Ok body # ys), requests := requests w @ [url m],
     clock := clock w + (if x = Stall then timeout c else 0)\<rparr>"
  have "fetch_attempts c m d n k w =
      fetch_attempts c m d n' (Suc k) (?w1\<lparr>clock := clock ?w1 + backoff k\<rparr>)"
    using Cons.prems(1,2) n \<open>n' \<noteq> 0\<close> by (cases x) (simp_all add: http_get_reply)
  moreover have "\<exists>w'. fetch_attempts c m d n' (Suc k) (?w1\<lparr>clock := clock ?w1 + backoff k\<rparr>) =
      (Inr (final_path m d), w')"
    using Cons.prems \<open>length xs < n'\<close> by (intro Cons.IH) simp_all
  ultimately show ?case by simp
qed

lemma fetch_attempts_integrity:
  assumes "net w (url m) = Ok body # ys" and "0 < n"
    and "fs w d = Some Dir" and "fs w (tmp_path c m d) \<noteq> Some Dir"
    and "sha256 c body \<noteq> checksum m"
  shows "\<exists>w'. fetch_attempts c m d n k w =
      (Inl (IntegrityError (filename m) (checksum m) (sha256 c body)), w') \<and>
    fs w' = (fs w)(tmp_path c m d := None) \<and> requests w' = requests w @ [url m]"
  using assms by (cases n) (auto simp: http_get_reply store_verified_mismatch)

lemma fetch_remote_cached:
  assumes "resolve (cwd w) dirname = Some d" and "fs w (final_path m d) \<noteq> None"
  shows "fetch_remote c m dirname False w = (Inr (final_path m d), w)"
  using assms by (simp add: fetch_remote_def)

lemma fetch_remote_effect:
  assumes "fetch_remote c m dirname force w = (r, w')"
  shows "cwd w' = cwd w \<and> environ w' = environ w \<and>
    (\<exists>d. resolve (cwd w) dirname = Some d \<and> dl_effect c m d (fs w) (fs w')) \<or> w' = w"
  using assms fetch_attempts_fs [of c m _ "max_attempts c" 0 w r w']
  by (auto simp: fetch_remote_def split: option.splits if_splits)

lemma final_path_visible [simp]: "visible_path (final_path m d) \<longleftrightarrow> visible_path d"
  by (simp add: final_path_def visible_path_def)

lemma fetch_remote_dl:
  assumes "fetch_remote c m loc force w = (r, w')" and "resolve (cwd w) loc = Some d"
  shows "cwd w' = cwd w \<and> environ w' = environ w \<and> dl_effect c m d (fs w) (fs w') \<and>
    (\<forall>p. r = Inr p \<longrightarrow> p = final_path m d \<and> fs w' p \<noteq> None) \<and>
    (\<exists>j \<le> max_attempts c. requests w' = requests w @ replicate j (url m)) \<and>
    clock w \<le> clock w' \<and> clock w' \<le> clock w + max_attempts c * timeout c + backoff (max_attempts c)"
proof (cases "\<not> force \<and> fs w (final_path m d) \<noteq> None")
  case True
  with assms have "r = Inr (final_path m d)" and "w' = w" by (simp_all add: fetch_remote_def)
  moreover have "\<exists>j \<le> max_attempts c. requests w = requests w @ replicate j (url m)"
    by (rule exI [of _ 0]) simp
  ultimately show ?thesis using True by simp
next
  case False
  with assms have a: "fetch_attempts c m d (max_attempts c) 0 w = (r, w')"
    by (auto simp: fetch_remote_def)
  have "backoff 0 = 1" by (simp add: backoff_def)
  with fetch_attempts_clock [OF a]
  have "clock w \<le> clock w' \<and> clock w' \<le> clock w + max_attempts c * timeout c + backoff (max_attempts c)"
    by simp
  moreover have "\<forall>p. r = Inr p \<longrightarrow> p = final_path m d \<and> fs w' p \<noteq> None"
  proof (intro allI impI)
    fix p assume "r = Inr p"
    with a have "fetch_attempts c m d (max_attempts c) 0 w = (Inr p, w')" by simp
    from fetch_attempts_result [OF this] show "p = final_path m d \<and> fs w' p \<noteq> None" by auto
  qed
  moreover note fetch_attempts_fs [OF a] fetch_attempts_requests [OF a]
  ultimately show ?thesis by blast
qed

lemma fetch_remote_wf: "keeps wf_kept (fetch_remote c m dirname force)"
proof (rule keepsI)
  fix w r w'
  assume "fetch_remote c m dirname force w = (r, w')"
  from fetch_remote_effect [OF this] show "wf_kept w w'"
    by (auto simp: wf_kept_def intro: dl_effect_wf)
qed

lemma fetch_attempts_transient:
  assumes "net w (url m) = xs @ ys" and "list_all (\<lambda>x. \<not> is_ok x) xs" and "length xs = n" and "0 < n"
  shows "\<exists>w'. fetch_attempts c m d n k w = (Inl (TransientFetchError (url m) (k + n)), w') \<and>
    fs w' = fs w \<and> requests w' = requests w @ replicate n (url m)"
  using assms
proof (induction xs arbitrary: n k w)
  case Nil
  then show ?case by simp
next
  case (Cons x xs)
  then obtain n' where n: "n = Suc n'" and xs: "length xs = n'" by (cases n) auto
  let ?w1 = "w\<lparr>net := (net w)(url m := xs @ ys), requests := requests w @ [url m],
     clock := clock w + (if x = Stall then timeout c else 0)\<rparr>"
  have h: "http_get c (url m) w = (x, ?w1)" using Cons.prems(1) by (simp add: http_get_reply)
  have nx: "\<not> is_ok x" using Cons.prems(2) by simp
  show ?case
  proof (cases "n' = 0")
    case True
    with h nx n show ?thesis by (cases x) simp_all
  next
    case False
    have "\<exists>w'. fetch_attempts c m d n' (Suc k) (?w1\<lparr>clock := clock ?w1 + backoff k\<rparr>) =
        (Inl (TransientFetchError (url m) (Suc k + n')), w') \<and>
        fs w' = fs w \<and> requests w' = (requests w @ [url m]) @ replicate n' (url m)"
      using Cons.IH [of "?w1\<lparr>clock := clock ?w1 + backoff k\<rparr>" n' "Suc k"] Cons.prems(2) xs False by simp
    moreover have "fetch_attempts c m d n k w =
        fetch_attempts c m d n' (Suc k) (?w1\<lparr>clock := clock ?w1 + backoff k\<rparr>)"
      using h nx n False by (cases x) simp_all
    ultimately show ?thesis using n by (simp add: replicate_app_Cons_same)
  qed
qed

lemma serves_split:
  "serves c m n q \<Longrightarrow>
     \<exists>xs b ys. q = xs @ Ok b # ys \<and> list_all (\<lambda>x. \<not> is_ok x) xs \<and> length xs < n \<and> sha256 c b = checksum m"
proof (induction q arbitrary: n)
  case Nil
  then show ?case by (cases n) simp_all
next
  case (Cons x q)
  then obtain n' where n: "n = Suc n'" by (cases n) auto
  show ?case
  proof (cases "is_ok x")
    case True
    then obtain b where x: "x = Ok b" by (cases x) auto
    with Cons.prems n have "x # q = [] @ Ok b # q" "sha256 c b = checksum m" by simp_all
    with n show ?thesis by fastforce
  next
    case False
    with Cons.prems n have "serves c m n' q" by (cases x) simp_all
    from Cons.IH [OF this] obtain xs b ys where "q = xs @ Ok b # ys" "list_all (\<lambda>x. \<not> is_ok x) xs"
      "length xs < n'" "sha256 c b = checksum m" by blast
    with False n have "x # q = (x # xs) @ Ok b # ys" "list_all (\<lambda>x. \<not> is_ok x) (x # xs)"
      "length (x # xs) < n" "sha256 c b = checksum m" by simp_all
    then show ?thesis by blast
  qed
qed

lemma fetch_attempts_net:
  "fetch_attempts c m d n k w = (r, w') \<Longrightarrow> u \<noteq> url m \<Longrightarrow> net w' u = net w u"
proof (induction c m d n k w arbitrary: r w' rule: fetch_attempts_induct_step)
  case (zero c m d k w)
  then show ?case by simp
next
  case (step c m d n k w)
  obtain x w1 where h: "http_get c (url m) w = (x, w1)" by fastforce
  have n1: "net w1 u = net w u" using h step.prems(2) by (auto simp: http_get_def Let_def)
  from step.prems(1) h show ?case
  proof (cases rule: fetch_attempts_Suc_cases)
    case (ok body)
    then show ?thesis using n1 store_verified_cases [of c m d body w1 r w'] by (simp add: fs_only_def)
  next
    case last
    then show ?thesis using n1 by simp
  next
    case retry
    then show ?thesis using step.IH [OF h] n1 step.prems(2) by fastforce
  qed
qed

lemma dl_effect_other:
  "dl_effect c m d f f' \<Longrightarrow> q \<noteq> tmp_path c m d \<Longrightarrow> q \<noteq> final_path m d \<Longrightarrow> f' q = f q"
  by (auto simp: dl_effect_def)

lemma write_file_log: "write_file p b w = (r, w') \<Longrightarrow> log w' = log w"
  by (auto simp: write_file_def split: option.splits node.splits if_splits)

lemma remove_file_log: "remove_file p w = (r, w') \<Longrightarrow> log w' = log w"
  by (auto simp: remove_file_def split: option.splits node.splits)

lemma rename_file_log: "rename_file p q w = (r, w') \<Longrightarrow> log w' = log w"
  by (auto simp: rename_file_def split: option.splits node.splits if_splits)

lemma store_verified_log:
  assumes "store_verified c m d body w = (r, w')"
  shows "log w' = log w"
proof -
  obtain r1 w1 where wr: "write_file (tmp_path c m d) body w = (r1, w1)" by fastforce
  obtain r2 w2 where rm: "remove_file (tmp_path c m d) w1 = (r2, w2)" by fastforce
  obtain r3 w3 where rn: "rename_file (tmp_path c m d) (final_path m d) w1 = (r3, w3)" by fastforce
  obtain r4 w4 where rm2: "remove_file (tmp_path c m d) w3 = (r4, w4)" by fastforce
  note l = write_file_log [OF wr] remove_file_log [OF rm] rename_file_log [OF rn] remove_file_log [OF rm2]
  show ?thesis
    using assms wr rm rn rm2 l
    by (cases r1; cases r2; cases r3; cases r4) (auto simp: store_verified_def est_bind_def split: if_splits)
qed

lemma fetch_attempts_log: "fetch_attempts c m d n k w = (r, w') \<Longrightarrow> log w' = log w"
proof (induction c m d n k w arbitrary: r w' rule: fetch_attempts_induct_step)
  case (zero c m d k w)
  then show ?case by simp
next
  case (step c m d n k w)
  obtain x w1 where h: "http_get c (url m) w = (x, w1)" by fastforce
  have l1: "log w1 = log w" using h by (auto simp: http_get_def Let_def)
  from step.prems h show ?case
  proof (cases rule: fetch_attempts_Suc_cases)
    case (ok body)
    then show ?thesis using l1 store_verified_log by metis
  next
    case last
    then show ?thesis using l1 by simp
  next
    case retry
    then show ?thesis using step.IH [OF h] l1 by fastforce
  qed
qed

lemma fetch_remote_log: "fetch_remote c m loc force w = (r, w') \<Longrightarrow> log w' = log w"
  by (auto simp: fetch_remote_def split: option.splits if_splits dest: fetch_attempts_log)

end
