(* ===== verification/Bunch.thy ===== *)
theory Bunch
  imports Prelude
begin

text \<open>
  The result bundle \<^verbatim>\<open>Bunch\<close> of \<^verbatim>\<open>MDAnalysisData.base\<close> (not among the
  sources here; modelled from the spec, section 3 \<open>ResultBundle\<close>): a
  \<^verbatim>\<open>dict\<close> from keys to strings whose attributes are its keys. Setting an
  attribute stores the key (\<^verbatim>\<open>records.DESCR = text\<close> is
  \<^verbatim>\<open>records['DESCR'] = text\<close>); reading a missing attribute raises
  \<^verbatim>\<open>AttributeError\<close>. A Python \<^verbatim>\<open>dict\<close> keeps its keys in insertion order and
  assigning to an existing key keeps its position, so the bundle is an
  association list with that update. Only the key/value store and the
  attribute access the fetchers use are modelled: \<^verbatim>\<open>Bunch\<close> subclasses
  \<^verbatim>\<open>dict\<close>, so on the real object an attribute named like a
  \<^verbatim>\<open>dict\<close> method (\<^verbatim>\<open>keys\<close>, \<^verbatim>\<open>items\<close>, ...) is that method and not a
  key; \<open>bunch_getattr\<close> reads keys only, which is what the fetchers' roles
  and \<^verbatim>\<open>DESCR\<close> (none of them a method name) rely on.
\<close>

type_synonym bunch = "(string \<times> string) list"

text \<open>\<^verbatim>\<open>b[k] = v\<close>.\<close>

fun bunch_setitem :: "string \<Rightarrow> string \<Rightarrow> bunch \<Rightarrow> bunch" where
  "bunch_setitem k v [] = [(k, v)]"
| "bunch_setitem k v ((k', v') # b) =
     (if k' = k then (k, v) # b else (k', v') # bunch_setitem k v b)"

text \<open>\<^verbatim>\<open>b.k = v\<close>.\<close>

definition bunch_setattr :: "string \<Rightarrow> string \<Rightarrow> bunch \<Rightarrow> bunch" where
  "bunch_setattr k v b = bunch_setitem k v b"

text \<open>\<^verbatim>\<open>b.k\<close>.\<close>

definition bunch_getattr :: "bunch \<Rightarrow> string \<Rightarrow> error + string" where
  "bunch_getattr b k = (case map_of b k of None \<Rightarrow> Inl (AttributeError k) | Some v \<Rightarrow> Inr v)"

text \<open>\<^verbatim>\<open>list(b.keys())\<close>.\<close>

definition bunch_keys :: "bunch \<Rightarrow> string list" where
  "bunch_keys b = map fst b"

section \<open>Lemmas\<close>

lemma map_of_bunch_setitem [simp]: "map_of (bunch_setitem k v b) = (map_of b)(k \<mapsto> v)"
  by (induction b) (auto simp: fun_eq_iff)

lemma bunch_keys_setitem:
  "bunch_keys (bunch_setitem k v b) = (if k \<in> set (bunch_keys b) then bunch_keys b else bunch_keys b @ [k])"
  by (induction b) (force simp: bunch_keys_def)+

lemma distinct_bunch_setitem:
  "distinct (bunch_keys b) \<Longrightarrow> distinct (bunch_keys (bunch_setitem k v b))"
  by (simp add: bunch_keys_setitem)

lemma bunch_getattr_setattr_same [simp]: "bunch_getattr (bunch_setattr k v b) k = Inr v"
  by (simp add: bunch_getattr_def bunch_setattr_def)

lemma bunch_getattr_setattr_other:
  "k' \<noteq> k \<Longrightarrow> bunch_getattr (bunch_setattr k v b) k' = bunch_getattr b k'"
  by (simp add: bunch_getattr_def bunch_setattr_def)

lemma bunch_getattr_missing:
  "k \<notin> set (bunch_keys b) \<Longrightarrow> bunch_getattr b k = Inl (AttributeError k)"
proof -
  assume "k \<notin> set (bunch_keys b)"
  then have "map_of b k = None" by (simp add: bunch_keys_def map_of_eq_None_iff)
  then show ?thesis by (simp add: bunch_getattr_def)
qed

end
