(* ===== verification/Locator.thy ===== *)
theory Locator
  imports FileSystem
begin

text \<open>
  The cache locator \<^verbatim>\<open>get_data_home(data_home=None)\<close> of
  \<^verbatim>\<open>MDAnalysisData.base\<close> (not among the sources here; modelled from the
  spec, section 4.1): the root of the cache is the argument if one is given,
  else the process-wide setting \<^verbatim>\<open>MDANALYSIS_DATA\<close> of the environment, else
  \<^verbatim>\<open>~/MDAnalysis_data\<close> (the default the docstring of
  \<^verbatim>\<open>fetch_adk_equilibrium\<close> names); a leading \<^verbatim>\<open>~\<close> is expanded, the
  directory is created with \<^verbatim>\<open>makedirs\<close> when it does not exist, and the
  expanded string is returned. Creating the root is idempotent (spec 4.1: no
  error if it already exists), so the call is
  \<^verbatim>\<open>makedirs(home, exist_ok=True)\<close>, which still fails on a file in the
  way.
\<close>

definition default_data_home :: string where
  "default_data_home = posix_join ''~'' ''MDAnalysis_data''"

definition data_home_setting :: "world \<Rightarrow> string option \<Rightarrow> string" where
  "data_home_setting w data_home =
     (case data_home of
        Some s \<Rightarrow> s
      | None \<Rightarrow> (case environ w ''MDANALYSIS_DATA'' of Some s \<Rightarrow> s | None \<Rightarrow> default_data_home))"

text \<open>The expanded root string, before it is created.\<close>

definition data_home_path :: "world \<Rightarrow> string option \<Rightarrow> string" where
  "data_home_path w data_home = expanduser (environ w) (data_home_setting w data_home)"

definition get_data_home :: "string option \<Rightarrow> string act" where
  "get_data_home data_home w =
     (let home = data_home_path w data_home
      in if \<not> os_exists w home then est_bind (os_makedirs_exist_ok home) (\<lambda>_. est_return home) w
         else (Inr home, w))"

section \<open>Lemmas\<close>

lemma get_data_home_absent:
  "\<not> os_exists w (data_home_path w dh) \<Longrightarrow>
     get_data_home dh w = est_bind (os_makedirs (data_home_path w dh)) (\<lambda>_. est_return (data_home_path w dh)) w"
  by (simp add: get_data_home_def est_bind_def os_makedirs_exist_ok_absent split: prod.splits sum.splits)

lemma get_data_home_effect:
  assumes "get_data_home dh w = (r, w')"
  shows "fs_only w w' \<and>
    (\<forall>q. fs w' q \<noteq> fs w q \<longrightarrow> fs w q = None \<and> fs w' q = Some Dir \<and>
       (\<exists>p. resolve (cwd w) (data_home_path w dh) = Some p \<and> prefix q p)) \<and>
    (\<forall>h. r = Inr h \<longrightarrow> h = data_home_path w dh \<and> os_exists w' h)"
proof (cases "os_exists w (data_home_path w dh)")
  case True
  with assms show ?thesis by (auto simp: get_data_home_def fs_only_def)
next
  case False
  with assms have m: "est_bind (os_makedirs (data_home_path w dh)) (\<lambda>_. est_return (data_home_path w dh)) w
      = (r, w')" by (simp add: get_data_home_absent)
  then show ?thesis
  proof (cases rule: est_bind_cases)
    case (fail e)
    with os_makedirs_effect [OF fail(1)] show ?thesis by simp
  next
    case (ok u w1)
    with os_makedirs_effect [of "data_home_path w dh" w "Inr ()" w1] show ?thesis
      by (auto simp: os_exists_resolve fs_only_def)
  qed
qed

lemma data_home_path_environ:
  assumes "environ w' = environ w"
  shows "data_home_path w' dh = data_home_path w dh"
  unfolding data_home_path_def data_home_setting_def assms ..

lemma get_data_home_exists:
  "os_exists w (data_home_path w dh) \<Longrightarrow> get_data_home dh w = (Inr (data_home_path w dh), w)"
  by (simp add: get_data_home_def)

lemma get_data_home_wf: "keeps wf_kept (get_data_home dh)"
proof (rule keepsI)
  fix w r w'
  assume a: "get_data_home dh w = (r, w')"
  show "wf_kept w w'"
  proof (cases "os_exists w (data_home_path w dh)")
    case True
    with a show ?thesis by (simp add: get_data_home_exists wf_kept_def)
  next
    case False
    with a have m: "est_bind (os_makedirs (data_home_path w dh)) (\<lambda>_. est_return (data_home_path w dh)) w
        = (r, w')" by (simp add: get_data_home_absent)
    have k: "keeps wf_kept (est_bind (os_makedirs (data_home_path w dh))
        (\<lambda>_. est_return (data_home_path w dh)))"
      by (intro keeps_bind os_makedirs_wf keeps_return) simp_all
    from keepsD [OF k m] show ?thesis .
  qed
qed

end
