(* ===== verification/Fetcher.thy ===== *)
theory Fetcher
  imports Downloader Bunch Locator
begin

text \<open>
  The body shared by \<^verbatim>\<open>fetch_adk_equilibrium\<close> and \<^verbatim>\<open>fetch_ifabp_water\<close>
  (\<^verbatim>\<open>src/MDAnalysisData/adk_equilibrium.py\<close>, lines 92--116, and
  \<^verbatim>\<open>src/MDAnalysisData/ifabp_water.py\<close>, lines 99--123, which are the same
  code over different module constants). The dataset directory
  \<^verbatim>\<open>join(get_data_home(data_home), name)\<close> is created when it does not
  exist; then, for each entry of \<^verbatim>\<open>ARCHIVE\<close> in its order, the local path is
  recorded in the bundle and, when no file exists there, either
  \<^verbatim>\<open>IOError\<close> is raised (\<^verbatim>\<open>download_if_missing=False\<close>) or the file is
  downloaded; finally the description is read from
  \<^verbatim>\<open>descr/DESCRIPTION\<close> in the package directory and stored as
  \<^verbatim>\<open>DESCR\<close>. The \<^verbatim>\<open>logger.info\<close> call before each download
  (adk lines 107--108) appends \<open>download_msg\<close> to the world's log
  (\<open>log_info\<close>), so the theorems about the log speak of the messages the
  code emits.
\<close>

text \<open>\<^verbatim>\<open>ARCHIVE\<close>: role name to remote metadata, in the dict's order.\<close>

type_synonym archive = "(string \<times> remote_meta) list"

text \<open>\<^verbatim>\<open>local_path = join(data_location, meta.filename)\<close>.\<close>

definition local_path_of :: "string \<Rightarrow> remote_meta \<Rightarrow> string" where
  [simp]: "local_path_of data_location meta = posix_join data_location (filename meta)"

text \<open>\<^verbatim>\<open>join(module_path, 'descr', DESCRIPTION)\<close>.\<close>

definition descr_path :: "string \<Rightarrow> string \<Rightarrow> string" where
  [simp]: "descr_path module_path description = posix_join (posix_join module_path ''descr'') description"

text \<open>
  \<^verbatim>\<open>"Downloading {0}: {1} -> {2}...".format(file_type, meta.url, local_path)\<close>,
  the message logged before a download.
\<close>

definition download_msg :: "string \<Rightarrow> remote_meta \<Rightarrow> string \<Rightarrow> string" where
  "download_msg file_type meta local_path =
     ''Downloading '' @ file_type @ '': '' @ url meta @ '' -> '' @ local_path @ ''...''"

text \<open>The \<^verbatim>\<open>for file_type, meta in ARCHIVE.items()\<close> loop.\<close>

fun fetch_files :: "cfg \<Rightarrow> string \<Rightarrow> bool \<Rightarrow> archive \<Rightarrow> bunch \<Rightarrow> bunch act" where
  "fetch_files c data_location download_if_missing [] records w = (Inr records, w)"
| "fetch_files c data_location download_if_missing ((file_type, meta) # rest) records w =
     (let local_path = local_path_of data_location meta;
          records' = bunch_setitem file_type local_path records
      in if \<not> os_exists w local_path then
           (if \<not> download_if_missing then
              (Inl (MissingDataError file_type local_path), w)
            else
              (case fetch_remote c meta data_location False
                      (log_info (download_msg file_type meta local_path) w) of
                 (Inl e, w1) \<Rightarrow> (Inl e, w1)
               | (Inr _, w1) \<Rightarrow> fetch_files c data_location download_if_missing rest records' w1))
         else fetch_files c data_location download_if_missing rest records' w)"

text \<open>\<^verbatim>\<open>join(get_data_home(data_home), name)\<close> as a string.\<close>

definition data_location_of :: "world \<Rightarrow> string option \<Rightarrow> string \<Rightarrow> string" where
  "data_location_of w data_home name = posix_join (data_home_path w data_home) name"

text \<open>\<^verbatim>\<open>if not exists(data_location): makedirs(data_location)\<close>.\<close>

definition ensure_dir :: "string \<Rightarrow> unit act" where
  "ensure_dir data_location w =
     (if \<not> os_exists w data_location then os_makedirs data_location w else (Inr (), w))"

text \<open>
  The whole fetcher, over the module constants \<^verbatim>\<open>NAME\<close>,
  \<^verbatim>\<open>DESCRIPTION\<close> and \<^verbatim>\<open>ARCHIVE\<close> and the package directory
  \<^verbatim>\<open>dirname(__file__)\<close>.
\<close>

definition fetch_dataset ::
  "cfg \<Rightarrow> string \<Rightarrow> string \<Rightarrow> archive \<Rightarrow> string \<Rightarrow> string option \<Rightarrow> bool \<Rightarrow> bunch act" where
  "fetch_dataset c name description archive module_path data_home download_if_missing =
     est_bind (get_data_home data_home) (\<lambda>home.
       let data_location = posix_join home name in
       est_bind (ensure_dir data_location) (\<lambda>_.
       est_bind (fetch_files c data_location download_if_missing archive []) (\<lambda>records.
       est_bind (read_file (descr_path module_path description)) (\<lambda>text.
       est_return (bunch_setattr ''DESCR'' text records)))))"

text \<open>
  A well-formed archive: distinct role names, none of them \<^verbatim>\<open>DESCR\<close>, and
  plain file names, so that every file lands directly in the dataset
  directory.
\<close>

definition wf_archive :: "archive \<Rightarrow> bool" where
  "wf_archive archive \<longleftrightarrow>
     distinct (map fst archive) \<and> ''DESCR'' \<notin> set (map fst archive) \<and>
     list_all (\<lambda>(_, m). simple_name (filename m)) archive"

text \<open>The bundle the loop builds: every role bound to its local path.\<close>

definition archive_records :: "string \<Rightarrow> archive \<Rightarrow> bunch \<Rightarrow> bunch" where
  "archive_records data_location archive records =
     foldl (\<lambda>r (ft, m). bunch_setitem ft (posix_join data_location (filename m)) r) records archive"

text \<open>
  The messages the loop would log if every file were missing: one
  \<^verbatim>\<open>logger.info\<close> line per archive entry, in archive order.
\<close>

definition download_log :: "string \<Rightarrow> archive \<Rightarrow> string list" where
  "download_log data_location archive =
     map (\<lambda>(ft, m). download_msg ft m (local_path_of data_location m)) archive"

text \<open>
  The requests of a run that tried the first \<open>length ks\<close> entries of the
  archive in order, the \<open>i\<close>-th one \<open>ks ! i\<close> times.
\<close>

definition request_trace :: "nat list \<Rightarrow> archive \<Rightarrow> string list" where
  "request_trace ks archive = concat (map2 (\<lambda>k (ft, m). replicate k (url m)) ks archive)"

text \<open>
  What a run of the loop may change: nothing but the file system; no visible
  entry disappears; a visible entry that changes is the target of an archive
  entry in the dataset directory \<open>d\<close> and holds content whose digest is that
  entry's checksum; a temporary entry either stays as it was or is gone.
\<close>

definition fetch_footprint :: "cfg \<Rightarrow> archive \<Rightarrow> path \<Rightarrow> world \<Rightarrow> world \<Rightarrow> bool" where
  "fetch_footprint c archive d w w' \<longleftrightarrow>
     cwd w' = cwd w \<and> environ w' = environ w \<and>
     (\<forall>p. visible_path p \<longrightarrow> fs w p \<noteq> None \<longrightarrow> fs w' p \<noteq> None) \<and>
     (\<forall>p. visible_path p \<longrightarrow> fs w' p \<noteq> fs w p \<longrightarrow>
        (\<exists>m \<in> snd ` set archive. p = final_path m d \<and>
           (\<exists>b. fs w' p = Some (File b) \<and> sha256 c b = checksum m))) \<and>
     (\<forall>p. \<not> visible_path p \<longrightarrow> fs w' p = fs w p \<or> fs w' p = None)"

section \<open>Lemmas\<close>

lemma archive_records_simps [simp]:
  "archive_records loc [] recs = recs"
  "archive_records loc ((ft, m) # rest) recs =
     archive_records loc rest (bunch_setitem ft (posix_join loc (filename m)) recs)"
  by (simp_all add: archive_records_def)

lemma fetch_footprint_refl [simp]: "fetch_footprint c archive d w w"
  by (simp add: fetch_footprint_def)

lemma fetch_footprintD:
  assumes "fetch_footprint c archive d w w'"
  shows "cwd w' = cwd w" and "environ w' = environ w"
    and "visible_path p \<Longrightarrow> fs w p \<noteq> None \<Longrightarrow> fs w' p \<noteq> None"
    and "visible_path p \<Longrightarrow> fs w' p \<noteq> fs w p \<Longrightarrow>
      \<exists>m \<in> snd ` set archive. p = final_path m d \<and> (\<exists>b. fs w' p = Some (File b) \<and> sha256 c b = checksum m)"
    and "\<not> visible_path p \<Longrightarrow> fs w' p = fs w p \<or> fs w' p = None"
  using assms by (simp_all add: fetch_footprint_def)

lemma fetch_footprintI:
  assumes "cwd w' = cwd w" and "environ w' = environ w"
    and "\<And>p. visible_path p \<Longrightarrow> fs w p \<noteq> None \<Longrightarrow> fs w' p \<noteq> None"
    and "\<And>p. visible_path p \<Longrightarrow> fs w' p \<noteq> fs w p \<Longrightarrow>
      \<exists>m \<in> snd ` set archive. p = final_path m d \<and> (\<exists>b. fs w' p = Some (File b) \<and> sha256 c b = checksum m)"
    and "\<And>p. \<not> visible_path p \<Longrightarrow> fs w' p = fs w p \<or> fs w' p = None"
  shows "fetch_footprint c archive d w w'"
  using assms by (simp add: fetch_footprint_def)

lemma fetch_footprint_trans:
  assumes a1: "fetch_footprint c archive d w w1" and a2: "fetch_footprint c archive d w1 w2"
  shows "fetch_footprint c archive d w w2"
proof (rule fetch_footprintI)
  show "cwd w2 = cwd w" "environ w2 = environ w"
    using fetch_footprintD(1,2) [OF a1] fetch_footprintD(1,2) [OF a2] by simp_all
  show "fs w2 p \<noteq> None" if "visible_path p" "fs w p \<noteq> None" for p
    using fetch_footprintD(3) [OF a1 that] fetch_footprintD(3) [OF a2 that(1)] by simp
  show "fs w2 p = fs w p \<or> fs w2 p = None" if "\<not> visible_path p" for p
    using fetch_footprintD(5) [OF a1 that] fetch_footprintD(5) [OF a2 that] by auto
next
  fix p
  assume v: "visible_path p" and ch: "fs w2 p \<noteq> fs w p"
  show "\<exists>m \<in> snd ` set archive. p = final_path m d \<and>
      (\<exists>b. fs w2 p = Some (File b) \<and> sha256 c b = checksum m)"
  proof (cases "fs w2 p = fs w1 p")
    case True
    with ch have "fs w1 p \<noteq> fs w p" by simp
    from fetch_footprintD(4) [OF a1 v this] True show ?thesis by simp
  next
    case False
    from fetch_footprintD(4) [OF a2 v False] show ?thesis .
  qed
qed

lemma fetch_footprint_mono:
  assumes fp: "fetch_footprint c archive d w w'" and sub: "set archive \<subseteq> set archive'"
  shows "fetch_footprint c archive' d w w'"
proof (rule fetch_footprintI)
  show "\<exists>m \<in> snd ` set archive'. p = final_path m d \<and>
      (\<exists>b. fs w' p = Some (File b) \<and> sha256 c b = checksum m)"
    if "visible_path p" "fs w' p \<noteq> fs w p" for p
    using fetch_footprintD(4) [OF fp that] sub by blast
qed (use fetch_footprintD [OF fp] in auto)

lemma dl_effect_footprint:
  assumes "dl_effect c m d (fs w) (fs w')" and "cwd w' = cwd w" and "environ w' = environ w"
    and "m \<in> snd ` set archive" and "visible_path d"
  shows "fetch_footprint c archive d w w'"
proof (rule fetch_footprintI)
  show "fs w' p = fs w p \<or> fs w' p = None" if "\<not> visible_path p" for p
  proof -
    from that assms(5) have "p \<noteq> final_path m d" by auto
    with assms(1) show ?thesis by (auto simp: dl_effect_def split: if_splits)
  qed
  show "\<exists>m' \<in> snd ` set archive. p = final_path m' d \<and>
      (\<exists>b. fs w' p = Some (File b) \<and> sha256 c b = checksum m')"
    if "visible_path p" "fs w' p \<noteq> fs w p" for p
    using dl_effect_visible(2) [OF assms(1) that] assms(4) by blast
qed (use assms(2,3) dl_effect_visible(1) [OF assms(1)] in auto)

lemma ensure_dir_effect:
  assumes "ensure_dir s w = (r, w')" and "resolve (cwd w) s = Some p"
  shows "dirs_added p w w' \<and> (r = Inr () \<longrightarrow> fs w' p \<noteq> None)"
proof (cases "os_exists w s")
  case True
  with assms show ?thesis by (auto simp: ensure_dir_def os_exists_resolve)
next
  case False
  with assms(1) have "os_makedirs s w = (r, w')" by (simp add: ensure_dir_def)
  from os_makedirs_effect [OF this] assms(2) show ?thesis by (auto simp: dirs_added_def)
qed

lemma fetch_files_footprint:
  assumes "fetch_files c loc dim archive recs w = (r, w')" and "resolve (cwd w) loc = Some d"
    and "visible_path d"
  shows "fetch_footprint c archive d w w'"
  using assms
proof (induction archive arbitrary: recs w)
  case Nil
  then show ?case by simp
next
  case (Cons a rest)
  obtain ft m where a: "a = (ft, m)" by fastforce
  let ?lp = "posix_join loc (filename m)"
  let ?recs' = "bunch_setitem ft ?lp recs"
  have sub: "set rest \<subseteq> set (a # rest)" by auto
  have ma: "m \<in> snd ` set (a # rest)" using a by force
  show ?case
  proof (cases "os_exists w ?lp")
    case True
    with Cons.prems a have "fetch_files c loc dim rest ?recs' w = (r, w')" by (simp add: Let_def)
    from Cons.IH [OF this Cons.prems(2,3)] sub show ?thesis by (rule fetch_footprint_mono)
  next
    case False
    obtain r1 w1 where f: "fetch_remote c m loc False (w\<lparr>log := log w @ [download_msg ft m (posix_join loc (filename m))]\<rparr>) = (r1, w1)" by fastforce
    note e = fetch_remote_dl [OF f, simplified, OF Cons.prems(2)]
    then have fp1: "fetch_footprint c (a # rest) d w w1"
      using ma Cons.prems(3) by (blast intro: dl_effect_footprint)
    show ?thesis
    proof (cases "dim")
      case False
      with Cons.prems a \<open>\<not> os_exists w ?lp\<close> show ?thesis by (simp add: Let_def)
    next
      case True
      show ?thesis
      proof (cases r1)
        case (Inl e)
        with Cons.prems a f \<open>\<not> os_exists w ?lp\<close> True fp1 show ?thesis by (simp add: Let_def)
      next
        case (Inr p)
        with Cons.prems a f \<open>\<not> os_exists w ?lp\<close> True
        have "fetch_files c loc dim rest ?recs' w1 = (r, w')" by (simp add: Let_def)
        moreover have "resolve (cwd w1) loc = Some d" using e Cons.prems(2) by simp
        ultimately have "fetch_footprint c rest d w1 w'" using Cons.prems(3) by (rule Cons.IH)
        from this sub have "fetch_footprint c (a # rest) d w1 w'" by (rule fetch_footprint_mono)
        with fp1 show ?thesis by (rule fetch_footprint_trans)
      qed
    qed
  qed
qed

lemma fetch_files_cached:
  assumes "\<forall>(ft, m) \<in> set archive. os_exists w (posix_join loc (filename m))"
  shows "fetch_files c loc dim archive recs w = (Inr (archive_records loc archive recs), w)"
  using assms by (induction archive arbitrary: recs) (auto simp: Let_def)

lemma fetch_files_offline_world:
  "fetch_files c loc False archive recs w = (r, w') \<Longrightarrow> w' = w"
  by (induction archive arbitrary: recs) (auto simp: Let_def split: if_splits)

lemma request_trace_simps [simp]:
  "request_trace [] a = []"
  "request_trace ks [] = []"
  "request_trace (k # ks) ((ft, m) # a) = replicate k (url m) @ request_trace ks a"
  by (simp_all add: request_trace_def)

lemma request_trace_bounds:
  assumes "\<forall>k \<in> set ks. k \<le> n"
  shows "length (request_trace ks a) \<le> length a * n \<and> set (request_trace ks a) \<subseteq> url ` snd ` set a"
  using assms
proof (induction ks arbitrary: a)
  case Nil
  then show ?case by simp
next
  case (Cons k ks)
  then show ?case
  proof (cases a)
    case (Cons x a')
    obtain ft m where "x = (ft, m)" by fastforce
    with Cons \<open>\<forall>k' \<in> set (k # ks). k' \<le> n\<close> Cons.IH [of a'] show ?thesis by force
  qed simp
qed

lemma exists_persists:
  assumes "fetch_footprint c a d w w'" and "resolve (cwd w) loc = Some d" and "visible_path d"
    and "simple_name f" and "os_exists w (posix_join loc f)"
  shows "os_exists w' (posix_join loc f)"
proof -
  have "visible_path (d @ [Name f])" using assms(3) by (simp add: visible_path_def)
  moreover have "fs w (d @ [Name f]) \<noteq> None" using assms(5) os_exists_join [OF assms(2,4)] by simp
  ultimately have "fs w' (d @ [Name f]) \<noteq> None" by (rule fetch_footprintD(3) [OF assms(1)])
  moreover have "resolve (cwd w') loc = Some d" using fetch_footprintD(1) [OF assms(1)] assms(2) by simp
  ultimately show ?thesis using os_exists_join [OF _ assms(4)] by simp
qed

text \<open>
  The loop requests in archive order. It sends the URL of the first entry a
  few times, then that of the second, and so on, each at most
  \<open>max_attempts\<close> times. It sends nothing for an entry whose file was
  there at the start. Every entry before the last one it tried has its file
  at the end, so it stops at an entry that fails, and on success it has
  tried every entry.
\<close>

lemma fetch_files_request_order:
  assumes "fetch_files c loc dim archive recs w = (r, w')" and "resolve (cwd w) loc = Some d"
    and "visible_path d" and "list_all (\<lambda>(_, m). simple_name (filename m)) archive"
  shows "\<exists>ks. requests w' = requests w @ request_trace ks archive \<and> length ks \<le> length archive \<and>
    (\<forall>k \<in> set ks. k \<le> max_attempts c) \<and>
    (\<forall>(k, (ft, m)) \<in> set (zip ks archive). os_exists w (local_path_of loc m) \<longrightarrow> k = 0) \<and>
    (\<forall>(ft, m) \<in> set (take (length ks - 1) archive). os_exists w' (local_path_of loc m)) \<and>
    ((\<exists>b. r = Inr b) \<longrightarrow> length ks = length archive)"
  using assms
proof (induction archive arbitrary: recs w)
  case Nil
  then show ?case by simp
next
  case (Cons a rest)
  obtain ft m where a: "a = (ft, m)" by fastforce
  let ?lp = "posix_join loc (filename m)"
  let ?recs' = "bunch_setitem ft ?lp recs"
  from Cons.prems(4) a have sm: "simple_name (filename m)"
    and srest: "list_all (\<lambda>(_, m). simple_name (filename m)) rest" by simp_all
  have sm': "simple_name (filename m')" if "(ft', m') \<in> set rest" for ft' m'
    using srest that by (auto simp: list_all_iff)
  show ?case
  proof (cases "os_exists w ?lp")
    case True
    with Cons.prems a have run: "fetch_files c loc dim rest ?recs' w = (r, w')" by (simp add: Let_def)
    from Cons.IH [OF run Cons.prems(2,3) srest] obtain ks where ih:
      "requests w' = requests w @ request_trace ks rest" "length ks \<le> length rest"
      "\<forall>k \<in> set ks. k \<le> max_attempts c"
      "\<forall>(k, (ft, m)) \<in> set (zip ks rest). os_exists w (local_path_of loc m) \<longrightarrow> k = 0"
      "\<forall>(ft, m) \<in> set (take (length ks - 1) rest). os_exists w' (local_path_of loc m)"
      "(\<exists>b. r = Inr b) \<longrightarrow> length ks = length rest" by blast
    have "os_exists w' ?lp"
      using exists_persists [OF fetch_files_footprint [OF run Cons.prems(2,3)] Cons.prems(2,3) sm True] .
    with ih a show ?thesis by (intro exI [of _ "0 # ks"]) (auto simp: take_Cons')
  next
    case nex: False
    show ?thesis
    proof (cases dim)
      case False
      with Cons.prems a nex have "w' = w" "r = Inl (MissingDataError ft ?lp)" by (simp_all add: Let_def)
      then show ?thesis by (intro exI [of _ "[]"]) simp
    next
      case dim: True
      obtain r1 w1 where f: "fetch_remote c m loc False (w\<lparr>log := log w @ [download_msg ft m (posix_join loc (filename m))]\<rparr>) = (r1, w1)" by fastforce
      from fetch_remote_dl [OF f, simplified, OF Cons.prems(2)] obtain j where
        j: "j \<le> max_attempts c" "requests w1 = requests w @ replicate j (url m)" and
        cw: "cwd w1 = cwd w" and env: "environ w1 = environ w" and dl: "dl_effect c m d (fs w) (fs w1)"
        and got: "\<forall>p. r1 = Inr p \<longrightarrow> fs w1 (final_path m d) \<noteq> None" by blast
      show ?thesis
      proof (cases r1)
        case (Inl e)
        with Cons.prems a f nex dim have "w' = w1" "r = Inl e" by (simp_all add: Let_def)
        with j a nex show ?thesis by (intro exI [of _ "[j]"]) simp
      next
        case (Inr p)
        with Cons.prems a f nex dim have run: "fetch_files c loc dim rest ?recs' w1 = (r, w')"
          by (simp add: Let_def)
        have d1: "resolve (cwd w1) loc = Some d" using cw Cons.prems(2) by simp
        have fp1: "fetch_footprint c (a # rest) d w w1"
          using dl_effect_footprint [OF dl cw env _ Cons.prems(3)] a by simp
        from Cons.IH [OF run d1 Cons.prems(3) srest] obtain ks where ih:
          "requests w' = requests w1 @ request_trace ks rest" "length ks \<le> length rest"
          "\<forall>k \<in> set ks. k \<le> max_attempts c"
          "\<forall>(k, (ft, m)) \<in> set (zip ks rest). os_exists w1 (local_path_of loc m) \<longrightarrow> k = 0"
          "\<forall>(ft, m) \<in> set (take (length ks - 1) rest). os_exists w' (local_path_of loc m)"
          "(\<exists>b. r = Inr b) \<longrightarrow> length ks = length rest" by blast
        have z: "\<forall>(k, (ft', m')) \<in> set (zip ks rest). os_exists w (local_path_of loc m') \<longrightarrow> k = 0"
        proof (clarify)
          fix k ft' m' assume z: "(k, ft', m') \<in> set (zip ks rest)" and ex: "os_exists w (local_path_of loc m')"
          from z have "(ft', m') \<in> set rest" by (blast dest: set_zip_rightD)
          from exists_persists [OF fp1 Cons.prems(2,3) sm' [OF this]] ex have "os_exists w1 (local_path_of loc m')"
            by simp
          with ih(4) z show "k = 0" by fastforce
        qed
        have "fs w1 (d @ [Name (filename m)]) \<noteq> None" using got Inr by (simp add: final_path_def)
        then have "os_exists w1 ?lp" using os_exists_join [OF d1 sm] by simp
        from exists_persists [OF fetch_files_footprint [OF run d1 Cons.prems(3)] d1 Cons.prems(3) sm this]
        have "os_exists w' ?lp" .
        with ih z j a nex show ?thesis by (intro exI [of _ "j # ks"]) (auto simp: take_Cons')
      qed
    qed
  qed
qed

lemma fetch_files_request_trace:
  assumes "fetch_files c loc dim archive recs w = (r, w')" and "resolve (cwd w) loc = Some d"
  shows "\<exists>ks. requests w' = requests w @ request_trace ks archive \<and> length ks \<le> length archive \<and>
    (\<forall>k \<in> set ks. k \<le> max_attempts c)"
  using assms
proof (induction archive arbitrary: recs w)
  case Nil
  then show ?case by simp
next
  case (Cons a rest)
  obtain ft m where a: "a = (ft, m)" by fastforce
  let ?lp = "posix_join loc (filename m)"
  let ?recs' = "bunch_setitem ft ?lp recs"
  show ?case
  proof (cases "os_exists w ?lp")
    case True
    with Cons.prems a have "fetch_files c loc dim rest ?recs' w = (r, w')" by (simp add: Let_def)
    from Cons.IH [OF this Cons.prems(2)] obtain ks where
      "requests w' = requests w @ request_trace ks rest" "length ks \<le> length rest"
      "\<forall>k \<in> set ks. k \<le> max_attempts c" by blast
    with a show ?thesis by (intro exI [of _ "0 # ks"]) simp
  next
    case False
    obtain r1 w1 where f: "fetch_remote c m loc False (w\<lparr>log := log w @ [download_msg ft m (posix_join loc (filename m))]\<rparr>) = (r1, w1)" by fastforce
    from fetch_remote_dl [OF f, simplified, OF Cons.prems(2)] obtain j where
      j: "j \<le> max_attempts c" "requests w1 = requests w @ replicate j (url m)" and
      cw: "cwd w1 = cwd w" by blast
    show ?thesis
    proof (cases "dim \<and> (\<exists>p. r1 = Inr p)")
      case True
      with Cons.prems a f False
      have "fetch_files c loc dim rest ?recs' w1 = (r, w')" by (auto simp: Let_def)
      moreover have "resolve (cwd w1) loc = Some d" using cw Cons.prems(2) by simp
      ultimately obtain ks where
        "requests w' = requests w1 @ request_trace ks rest" "length ks \<le> length rest"
        "\<forall>k \<in> set ks. k \<le> max_attempts c" using Cons.IH by blast
      with a j show ?thesis by (intro exI [of _ "j # ks"]) simp
    next
      case nd: False
      with Cons.prems a f False have "w' = w \<or> w' = w1"
        by (cases r1) (auto simp: Let_def split: if_splits)
      then show ?thesis
      proof
        assume "w' = w"
        then show ?thesis by (intro exI [of _ "[]"]) simp
      next
        assume "w' = w1"
        with a j show ?thesis by (intro exI [of _ "[j]"]) simp
      qed
    qed
  qed
qed

lemma fetch_files_requests:
  assumes "fetch_files c loc dim archive recs w = (r, w')" and "resolve (cwd w) loc = Some d"
  shows "\<exists>us. requests w' = requests w @ us \<and> length us \<le> length archive * max_attempts c \<and>
    set us \<subseteq> url ` snd ` set archive"
proof -
  from fetch_files_request_trace [OF assms] obtain ks where
    "requests w' = requests w @ request_trace ks archive" "\<forall>k \<in> set ks. k \<le> max_attempts c" by blast
  with request_trace_bounds [of ks "max_attempts c" archive] show ?thesis by blast
qed

lemma fetch_files_clock:
  assumes "fetch_files c loc dim archive recs w = (r, w')" and "resolve (cwd w) loc = Some d"
  shows "clock w \<le> clock w' \<and>
    clock w' \<le> clock w + length archive * (max_attempts c * timeout c + backoff (max_attempts c))"
  using assms
proof (induction archive arbitrary: recs w)
  case Nil
  then show ?case by simp
next
  case (Cons a rest)
  obtain ft m where a: "a = (ft, m)" by fastforce
  let ?lp = "posix_join loc (filename m)"
  let ?recs' = "bunch_setitem ft ?lp recs"
  show ?case
  proof (cases "os_exists w ?lp")
    case True
    with Cons.prems a have "fetch_files c loc dim rest ?recs' w = (r, w')" by (simp add: Let_def)
    from Cons.IH [OF this Cons.prems(2)] show ?thesis by simp
  next
    case False
    obtain r1 w1 where f: "fetch_remote c m loc False (w\<lparr>log := log w @ [download_msg ft m (posix_join loc (filename m))]\<rparr>) = (r1, w1)" by fastforce
    from fetch_remote_dl [OF f, simplified, OF Cons.prems(2)] have
      c1: "clock w \<le> clock w1" "clock w1 \<le> clock w + max_attempts c * timeout c + backoff (max_attempts c)"
      and cw: "cwd w1 = cwd w" by blast+
    show ?thesis
    proof (cases "dim \<and> (\<exists>p. r1 = Inr p)")
      case True
      with Cons.prems a f False
      have "fetch_files c loc dim rest ?recs' w1 = (r, w')" by (auto simp: Let_def)
      moreover have "resolve (cwd w1) loc = Some d" using cw Cons.prems(2) by simp
      ultimately have "clock w1 \<le> clock w' \<and>
          clock w' \<le> clock w1 + length rest * (max_attempts c * timeout c + backoff (max_attempts c))"
        using Cons.IH by blast
      with c1 show ?thesis by simp
    next
      case nd: False
      with Cons.prems a f False have "w' = w \<or> w' = w1"
        by (cases r1) (auto simp: Let_def split: if_splits)
      with c1 show ?thesis by auto
    qed
  qed
qed

lemma fetch_files_success:
  assumes "fetch_files c loc dim archive recs w = (Inr recs', w')"
    and "resolve (cwd w) loc = Some d" and "visible_path d"
    and "list_all (\<lambda>(_, m). simple_name (filename m)) archive"
  shows "recs' = archive_records loc archive recs \<and>
    (\<forall>(ft, m) \<in> set archive. os_exists w' (posix_join loc (filename m)))"
  using assms
proof (induction archive arbitrary: recs w)
  case Nil
  then show ?case by simp
next
  case (Cons a rest)
  obtain ft m where a: "a = (ft, m)" by fastforce
  let ?lp = "posix_join loc (filename m)"
  let ?recs' = "bunch_setitem ft ?lp recs"
  from Cons.prems(4) a have sm: "simple_name (filename m)" by simp
  have fin: "visible_path (d @ [Name (filename m)])"
    using Cons.prems(3) by (simp add: visible_path_def)
  obtain w1 where
    rest: "fetch_files c loc dim rest ?recs' w1 = (Inr recs', w')" and
    cw: "cwd w1 = cwd w" and ex1: "fs w1 (d @ [Name (filename m)]) \<noteq> None"
  proof (cases "os_exists w ?lp")
    case True
    with Cons.prems(1) a have "fetch_files c loc dim rest ?recs' w = (Inr recs', w')"
      by (simp add: Let_def)
    moreover have "fs w (d @ [Name (filename m)]) \<noteq> None"
      using True os_exists_join [OF Cons.prems(2) sm] by simp
    ultimately show ?thesis using that by blast
  next
    case False
    obtain r1 w1 where f: "fetch_remote c m loc False (w\<lparr>log := log w @ [download_msg ft m (posix_join loc (filename m))]\<rparr>) = (r1, w1)" by fastforce
    with Cons.prems(1) a False obtain p where "r1 = Inr p" and
      "fetch_files c loc dim rest ?recs' w1 = (Inr recs', w')"
      by (cases r1) (auto simp: Let_def split: if_splits)
    moreover from fetch_remote_dl [OF f, simplified, OF Cons.prems(2)] this(1)
    have "cwd w1 = cwd w" and "fs w1 (d @ [Name (filename m)]) \<noteq> None"
      by (auto simp: final_path_def)
    ultimately show ?thesis using that by blast
  qed
  have d1: "resolve (cwd w1) loc = Some d" using cw Cons.prems(2) by simp
  from Cons.IH [OF rest d1 Cons.prems(3)] Cons.prems(4)
  have ih: "recs' = archive_records loc rest ?recs'"
    "\<forall>(ft, m) \<in> set rest. os_exists w' (posix_join loc (filename m))" by simp_all
  from fetch_files_footprint [OF rest d1 Cons.prems(3)] fin ex1
  have "fs w' (d @ [Name (filename m)]) \<noteq> None" by (auto dest: fetch_footprintD(3))
  moreover have "cwd w' = cwd w1" using fetch_files_footprint [OF rest d1 Cons.prems(3)]
    by (rule fetch_footprintD(1))
  ultimately have "os_exists w' ?lp" using os_exists_join [OF _ sm] d1 by simp
  with ih a show ?case by simp
qed

text \<open>
  The loop logs only before a download: what it appends to the log is a
  subsequence of the per-entry messages, and nothing at all when
  \<^verbatim>\<open>download_if_missing\<close> is false.
\<close>

lemma fetch_files_log:
  assumes "fetch_files c loc dim archive recs w = (r, w')"
  shows "\<exists>ms. log w' = log w @ ms \<and> subseq ms (download_log loc archive) \<and> (\<not> dim \<longrightarrow> ms = [])"
  using assms
proof (induction archive arbitrary: recs w)
  case Nil
  then show ?case by auto
next
  case (Cons a rest)
  obtain ft m where a: "a = (ft, m)" by fastforce
  let ?msg = "download_msg ft m (local_path_of loc m)"
  let ?recs' = "bunch_setitem ft (local_path_of loc m) recs"
  have dl: "download_log loc (a # rest) = ?msg # download_log loc rest"
    using a by (simp add: download_log_def)
  show ?case
  proof (cases "os_exists w (local_path_of loc m)")
    case ex: True
    with Cons.prems a have "fetch_files c loc dim rest ?recs' w = (r, w')" by (simp add: Let_def)
    from Cons.IH [OF this] obtain ms where
      "log w' = log w @ ms" "subseq ms (download_log loc rest)" "\<not> dim \<longrightarrow> ms = []" by blast
    with dl show ?thesis by auto
  next
    case nex: False
    show ?thesis
    proof (cases dim)
      case off: False
      with Cons.prems a nex have "w' = w" by (simp add: Let_def)
      with off show ?thesis by auto
    next
      case on: True
      obtain r1 w1 where f: "fetch_remote c m loc False (w\<lparr>log := log w @ [?msg]\<rparr>) = (r1, w1)"
        by fastforce
      have l1: "log w1 = log w @ [?msg]" using fetch_remote_log [OF f] by simp
      show ?thesis
      proof (cases r1)
        case (Inl e)
        with Cons.prems a nex on f have "w' = w1" by (simp add: Let_def)
        with l1 dl on show ?thesis by (intro exI [of _ "[?msg]"]) auto
      next
        case (Inr p)
        with Cons.prems a nex on f have "fetch_files c loc dim rest ?recs' w1 = (r, w')"
          by (simp add: Let_def)
        from Cons.IH [OF this] obtain ms where
          "log w' = log w1 @ ms" "subseq ms (download_log loc rest)" by blast
        with l1 dl on show ?thesis by (intro exI [of _ "?msg # ms"]) auto
      qed
    qed
  qed
qed

lemma resolve_data_location:
  assumes "resolve (cwd w) (data_home_path w dh) = Some hp" and "simple_name name"
  shows "resolve (cwd w) (data_location_of w dh name) = Some (hp @ [Name name])"
proof -
  have "data_home_path w dh \<noteq> []" using assms(1) by (auto simp: resolve_def)
  with assms show ?thesis by (simp add: data_location_of_def resolve_posix_join)
qed

lemma data_location_of_environ:
  assumes "environ w' = environ w"
  shows "data_location_of w' dh name = data_location_of w dh name"
  by (simp only: data_location_of_def data_home_path_environ [OF assms])

lemma ensure_dir_exists: "os_exists w s \<Longrightarrow> ensure_dir s w = (Inr (), w)"
  by (simp add: ensure_dir_def)

lemma ensure_dir_fs_only: "ensure_dir s w = (r, w') \<Longrightarrow> fs_only w w'"
  using os_makedirs_effect [of s w r w']
  by (auto simp: ensure_dir_def fs_only_def split: if_splits)

lemma get_data_home_dirs_added:
  assumes "get_data_home dh w = (r, w1)" and "simple_name name"
    and "resolve (cwd w) (data_location_of w dh name) = Some d"
  shows "dirs_added d w w1"
proof -
  note e = get_data_home_effect [OF assms(1)]
  have "prefix q d" if "fs w1 q \<noteq> fs w q" for q
  proof -
    from e that obtain hp where hp: "resolve (cwd w) (data_home_path w dh) = Some hp" "prefix q hp"
      by blast
    from resolve_data_location [OF hp(1) assms(2)] assms(3) have "d = hp @ [Name name]" by simp
    with hp(2) show ?thesis by simp
  qed
  with e show ?thesis by (auto simp: dirs_added_def)
qed

text \<open>Locating the data home and creating the dataset directory only add directories on the way to it.\<close>

lemma setup_dirs_added:
  assumes "get_data_home dh w = (r1, w1)" and "ensure_dir (data_location_of w dh name) w1 = (r2, w2)"
    and nm: "simple_name name" and loc: "resolve (cwd w) (data_location_of w dh name) = Some d"
  shows "dirs_added d w w2"
proof -
  have da1: "dirs_added d w w1" using get_data_home_dirs_added [OF assms(1) nm loc] .
  then have "cwd w1 = cwd w" by (simp add: dirs_added_def fs_only_def)
  with loc have "resolve (cwd w1) (data_location_of w dh name) = Some d" by simp
  from ensure_dir_effect [OF assms(2) this] da1 show ?thesis by (blast intro: dirs_added_trans)
qed

lemma fetch_dataset_phases:
  assumes "fetch_dataset c name descr archive mp dh dim w = (r, w')"
  defines "loc \<equiv> data_location_of w dh name"
    and "dp \<equiv> posix_join (posix_join mp ''descr'') descr"
  obtains (home_fail) e where "get_data_home dh w = (Inl e, w')" and "r = Inl e"
  | (dir_fail) w1 e where "get_data_home dh w = (Inr (data_home_path w dh), w1)"
      and "ensure_dir loc w1 = (Inl e, w')" and "r = Inl e"
  | (files_fail) w1 w2 e where "get_data_home dh w = (Inr (data_home_path w dh), w1)"
      and "ensure_dir loc w1 = (Inr (), w2)"
      and "fetch_files c loc dim archive [] w2 = (Inl e, w')" and "r = Inl e"
  | (descr_fail) w1 w2 recs e where "get_data_home dh w = (Inr (data_home_path w dh), w1)"
      and "ensure_dir loc w1 = (Inr (), w2)"
      and "fetch_files c loc dim archive [] w2 = (Inr recs, w')"
      and "read_file dp w' = (Inl e, w')" and "r = Inl e"
  | (ok) w1 w2 recs dtext where "get_data_home dh w = (Inr (data_home_path w dh), w1)"
      and "ensure_dir loc w1 = (Inr (), w2)"
      and "fetch_files c loc dim archive [] w2 = (Inr recs, w')"
      and "read_file dp w' = (Inr dtext, w')" and "r = Inr (bunch_setattr ''DESCR'' dtext recs)"
proof -
  from assms(1) show ?thesis
    unfolding fetch_dataset_def
  proof (cases rule: est_bind_cases)
    case (fail e)
    then show ?thesis using home_fail by blast
  next
    case (ok h w1)
    then have h: "h = data_home_path w dh" using get_data_home_effect [OF ok(1)] by simp
    with ok(2) have "est_bind (ensure_dir loc) (\<lambda>_.
       est_bind (fetch_files c loc dim archive []) (\<lambda>records.
       est_bind (read_file dp) (\<lambda>text. est_return (bunch_setattr ''DESCR'' text records)))) w1 = (r, w')"
      by (simp add: loc_def dp_def data_location_of_def Let_def)
    then show ?thesis
    proof (cases rule: est_bind_cases)
      case (fail e)
      then show ?thesis using dir_fail ok(1) h by blast
    next
      case (ok u w2)
      from ok(2) show ?thesis
      proof (cases rule: est_bind_cases)
        case (fail e)
        then show ?thesis using files_fail \<open>get_data_home dh w = (Inr h, w1)\<close> h ok(1) by simp
      next
        case (ok recs w3)
        from ok(2) show ?thesis
        proof (cases rule: est_bind_cases)
          case (fail e)
          moreover have "w3 = w'" using read_file_world [OF fail(1)] by simp
          ultimately show ?thesis
            using descr_fail \<open>get_data_home dh w = (Inr h, w1)\<close> h \<open>ensure_dir loc w1 = (Inr u, w2)\<close> ok(1)
            by simp
        next
          case ok2: (ok dtext w4)
          moreover have "w4 = w3" using read_file_world [OF ok2(1)] by simp
          ultimately show ?thesis
            using that(5) \<open>get_data_home dh w = (Inr h, w1)\<close> h \<open>ensure_dir loc w1 = (Inr u, w2)\<close> ok(1)
            by simp
        qed
      qed
    qed
  qed
qed

lemma fetch_dataset_files_phase:
  assumes "fetch_dataset c name descr archive mp dh dim w = (r, w')" and "name \<noteq> []"
  obtains "fs_only w w'"
  | w2 r3 d where "fs_only w w2" and "fetch_files c (data_location_of w dh name) dim archive [] w2 = (r3, w')"
      and "resolve (cwd w2) (data_location_of w dh name) = Some d"
proof -
  have res: "\<exists>d. resolve (cwd w2) (data_location_of w dh name) = Some d" for w2
    using assms(2) by (simp add: resolve_nonempty posix_join_nonempty data_location_of_def)
  from assms(1) show ?thesis
  proof (cases rule: fetch_dataset_phases)
    case (home_fail e)
    then show ?thesis using that(1) get_data_home_effect by blast
  next
    case (dir_fail w1 e)
    then show ?thesis using that(1) get_data_home_effect ensure_dir_fs_only fs_only_trans by blast
  next
    case (files_fail w1 w2 e)
    then have "fs_only w w2" using get_data_home_effect ensure_dir_fs_only fs_only_trans by blast
    then show ?thesis using that(2) files_fail(3) res by blast
  next
    case (descr_fail w1 w2 recs e)
    then have "fs_only w w2" using get_data_home_effect ensure_dir_fs_only fs_only_trans by blast
    then show ?thesis using that(2) descr_fail(3) res by blast
  next
    case (ok w1 w2 recs dtext)
    then have "fs_only w w2" using get_data_home_effect ensure_dir_fs_only fs_only_trans by blast
    then show ?thesis using that(2) ok(3) res by blast
  qed
qed

lemma fetch_dataset_ok_eval:
  assumes "get_data_home dh w = (Inr (data_home_path w dh), w1)"
    and "ensure_dir (data_location_of w dh name) w1 = (Inr (), w2)"
    and "fetch_files c (data_location_of w dh name) dim archive [] w2 = (Inr recs, w3)"
    and "read_file (posix_join (posix_join mp ''descr'') descr) w3 = (Inr dtext, w3)"
  shows "fetch_dataset c name descr archive mp dh dim w = (Inr (bunch_setattr ''DESCR'' dtext recs), w3)"
  using assms by (simp add: fetch_dataset_def est_bind_def data_location_of_def Let_def)

lemma archive_records_other:
  "ft \<notin> fst ` set archive \<Longrightarrow> map_of (archive_records loc archive recs) ft = map_of recs ft"
  by (induction archive arbitrary: recs) auto

lemma archive_records_lookup:
  assumes "distinct (map fst archive)" and "(ft, m) \<in> set archive"
  shows "map_of (archive_records loc archive recs) ft = Some (posix_join loc (filename m))"
  using assms
proof (induction archive arbitrary: recs)
  case Nil
  then show ?case by simp
next
  case (Cons a rest)
  obtain ft' m' where a: "a = (ft', m')" by fastforce
  show ?case
  proof (cases "(ft, m) = (ft', m')")
    case True
    with Cons.prems a have "ft \<notin> fst ` set rest" by auto
    with True a show ?thesis by (simp add: archive_records_other)
  next
    case False
    with Cons.prems a have "(ft, m) \<in> set rest" "distinct (map fst rest)" by auto
    with Cons.IH a show ?thesis by simp
  qed
qed

lemma archive_records_keys:
  assumes "distinct (map fst archive)" and "set (map fst archive) \<inter> set (bunch_keys recs) = {}"
  shows "bunch_keys (archive_records loc archive recs) = bunch_keys recs @ map fst archive"
  using assms
  by (induction archive arbitrary: recs) (auto simp: bunch_keys_setitem)

text \<open>The combined effect of creating directories and then running the loop.\<close>

lemma dirs_then_files:
  assumes da: "dirs_added d w w2" and fp: "fetch_footprint c archive d w2 w3" and vd: "visible_path d"
  shows "cwd w3 = cwd w \<and> environ w3 = environ w \<and>
    (\<forall>p. visible_path p \<longrightarrow> fs w p \<noteq> None \<longrightarrow> fs w3 p \<noteq> None) \<and>
    (\<forall>p. fs w3 p \<noteq> fs w p \<longrightarrow>
       (fs w p = None \<and> fs w3 p = Some Dir \<and> prefix p d) \<or>
       (\<exists>m \<in> snd ` set archive. p = final_path m d \<and>
          (\<exists>b. fs w3 p = Some (File b) \<and> sha256 c b = checksum m)) \<or>
       (\<not> visible_path p \<and> fs w3 p = None))"
proof (intro conjI allI impI)
  show "cwd w3 = cwd w" "environ w3 = environ w"
    using da fetch_footprintD(1,2) [OF fp] by (simp_all add: dirs_added_def fs_only_def)
  show "fs w3 p \<noteq> None" if "visible_path p" "fs w p \<noteq> None" for p
    using fetch_footprintD(3) [OF fp that(1)] dirs_added_visible [OF da that(2)] by simp
next
  fix p
  assume ch: "fs w3 p \<noteq> fs w p"
  have d2: "fs w2 p \<noteq> fs w p \<Longrightarrow> fs w p = None \<and> fs w2 p = Some Dir \<and> prefix p d"
    using da by (simp add: dirs_added_def)
  show "(fs w p = None \<and> fs w3 p = Some Dir \<and> prefix p d) \<or>
       (\<exists>m \<in> snd ` set archive. p = final_path m d \<and>
          (\<exists>b. fs w3 p = Some (File b) \<and> sha256 c b = checksum m)) \<or>
       (\<not> visible_path p \<and> fs w3 p = None)"
  proof (cases "visible_path p")
    case True
    show ?thesis
    proof (cases "fs w3 p = fs w2 p")
      case True
      with ch d2 show ?thesis by simp
    next
      case False
      from fetch_footprintD(4) [OF fp \<open>visible_path p\<close> False] show ?thesis by blast
    qed
  next
    case False
    then have "fs w2 p = fs w p"
      using d2 visible_path_prefix vd by blast
    with fetch_footprintD(5) [OF fp False] ch False show ?thesis by auto
  qed
qed

text \<open>The facts a successful run leaves behind.\<close>

lemma fetch_dataset_ok_facts:
  assumes run: "fetch_dataset c name descr archive mp dh dim w = (Inr b, w')"
    and vc: "visible_path (cwd w)" and nm: "simple_name name" and wa: "wf_archive archive"
  obtains dtext where
    "environ w' = environ w" and "cwd w' = cwd w"
    and "os_exists w' (data_home_path w dh)" and "os_exists w' (data_location_of w dh name)"
    and "\<forall>(ft, m) \<in> set archive. os_exists w' (posix_join (data_location_of w dh name) (filename m))"
    and "read_file (posix_join (posix_join mp ''descr'') descr) w' = (Inr dtext, w')"
    and "b = bunch_setattr ''DESCR'' dtext (archive_records (data_location_of w dh name) archive [])"
proof -
  let ?loc = "data_location_of w dh name"
  from run show ?thesis
  proof (cases rule: fetch_dataset_phases)
    case (ok w1 w2 recs dtext)
    have "os_exists w1 (data_home_path w dh)" and "cwd w1 = cwd w"
      using get_data_home_effect [OF ok(1)] by (simp_all add: fs_only_def)
    then obtain hp where hp: "resolve (cwd w) (data_home_path w dh) = Some hp"
      by (auto simp: os_exists_resolve)
    have d: "resolve (cwd w) ?loc = Some (hp @ [Name name])"
      by (rule resolve_data_location [OF hp nm])
    have vd: "visible_path (hp @ [Name name])" using resolve_visible [OF vc d] .
    have da1: "dirs_added (hp @ [Name name]) w w1" using get_data_home_dirs_added [OF ok(1) nm d] .
    then have cw1: "cwd w1 = cwd w" and en1: "environ w1 = environ w"
      by (simp_all add: dirs_added_def fs_only_def)
    from ensure_dir_effect [OF ok(2)] d cw1
    have da2: "dirs_added (hp @ [Name name]) w1 w2" and ex2: "fs w2 (hp @ [Name name]) \<noteq> None" by auto
    then have cw2: "cwd w2 = cwd w" and en2: "environ w2 = environ w"
      using cw1 en1 by (simp_all add: dirs_added_def fs_only_def)
    have d2: "resolve (cwd w2) ?loc = Some (hp @ [Name name])" using d cw2 by simp
    note fp = fetch_files_footprint [OF ok(3) d2 vd]
    have fa: "list_all (\<lambda>(_, m). simple_name (filename m)) archive" using wa by (simp add: wf_archive_def)
    from fetch_files_success [OF ok(3) d2 vd fa]
    have recs: "recs = archive_records ?loc archive []"
      and files: "\<forall>(ft, m) \<in> set archive. os_exists w' (posix_join ?loc (filename m))" by simp_all
    have cw: "cwd w' = cwd w" and en: "environ w' = environ w"
      using fetch_footprintD(1,2) [OF fp] cw2 en2 by simp_all
    have mono12: "\<And>p. visible_path p \<Longrightarrow> fs w1 p \<noteq> None \<Longrightarrow> fs w' p \<noteq> None"
      using dirs_added_visible [OF da2] fetch_footprintD(3) [OF fp] by blast
    have "os_exists w1 (data_home_path w dh)" using get_data_home_effect [OF ok(1)] by simp
    then have home: "os_exists w' (data_home_path w dh)"
      by (rule os_exists_mono) (use cw cw1 vc mono12 in simp_all)
    have "fs w' (hp @ [Name name]) \<noteq> None" using fetch_footprintD(3) [OF fp vd ex2] .
    then have "os_exists w' ?loc" using d cw by (simp add: os_exists_resolve)
    with home files cw en ok(4,5) recs show ?thesis using that by blast
  qed simp_all
qed

lemma ensure_dir_wf: "keeps wf_kept (ensure_dir s)"
  using os_makedirs_wf [of s]
  by (auto simp: keeps_def ensure_dir_def wf_kept_def)

lemma fetch_files_wf: "keeps wf_kept (fetch_files c loc dim archive recs)"
proof (induction archive arbitrary: recs)
  case Nil
  show ?case by (rule keepsI) (simp add: wf_kept_def)
next
  case (Cons a rest)
  obtain ft m where a: "a = (ft, m)" by fastforce
  show ?case
  proof (rule keepsI)
    fix w r w'
    assume run: "fetch_files c loc dim (a # rest) recs w = (r, w')"
    obtain r1 w1 where f: "fetch_remote c m loc False (w\<lparr>log := log w @ [download_msg ft m (posix_join loc (filename m))]\<rparr>) = (r1, w1)" by fastforce
    have k1: "wf_kept w w1" using keepsD [OF fetch_remote_wf f] by (simp add: wf_kept_def)
    have "w' = w \<or> (w' = w1) \<or> fetch_files c loc dim rest (bunch_setitem ft (local_path_of loc m) recs) w = (r, w') \<or>
        fetch_files c loc dim rest (bunch_setitem ft (local_path_of loc m) recs) w1 = (r, w')"
      using run f a by (cases r1) (auto simp: Let_def split: if_splits)
    then show "wf_kept w w'"
      using k1 keepsD [OF Cons.IH] by (auto simp: wf_kept_def)
  qed
qed

text \<open>
  The tree invariant \<open>wf_fs\<close> holds after every fetch, successful or
  not, that starts from a well-formed tree; the fetch theorems that assume
  a well-formed tree therefore apply to every world a sequence of fetches
  reaches from one.
\<close>

lemma fetch_dataset_wf: "keeps wf_kept (fetch_dataset c name descr archive mp dh dim)"
  unfolding fetch_dataset_def Let_def
  by (intro keeps_bind get_data_home_wf ensure_dir_wf fetch_files_wf read_file_wf keeps_return) simp_all

text \<open>A run on a complete cache: no request, no change.\<close>

lemma fetch_dataset_from_cache:
  assumes "os_exists w (data_home_path w dh)"
    and "os_exists w (data_location_of w dh name)"
    and "\<forall>(ft, m) \<in> set archive. os_exists w (posix_join (data_location_of w dh name) (filename m))"
    and "read_file (posix_join (posix_join mp ''descr'') descr) w = (Inr dtext, w)"
  shows "fetch_dataset c name descr archive mp dh dim w =
    (Inr (bunch_setattr ''DESCR'' dtext (archive_records (data_location_of w dh name) archive [])), w)"
proof (rule fetch_dataset_ok_eval)
  show "get_data_home dh w = (Inr (data_home_path w dh), w)"
    using assms(1) by (rule get_data_home_exists)
  show "ensure_dir (data_location_of w dh name) w = (Inr (), w)"
    using assms(2) by (rule ensure_dir_exists)
  show "fetch_files c (data_location_of w dh name) dim archive [] w =
      (Inr (archive_records (data_location_of w dh name) archive []), w)"
    using assms(3) by (rule fetch_files_cached)
qed (rule assms(4))

text \<open>A missing file whose host serves it within the retry bound is downloaded.\<close>

lemma fetch_remote_downloads:
  assumes loc: "resolve (cwd w) loc = Some d" and sm: "simple_name (filename m)"
    and dir: "fs w d = Some Dir" and tmp: "fs w (tmp_path c m d) \<noteq> Some Dir"
    and miss: "\<not> os_exists w (local_path_of loc m)"
    and q: "net w (url m) = xs @ Ok body # ys" and tr: "list_all (\<lambda>x. \<not> is_ok x) xs"
    and n: "length xs < max_attempts c" and ck: "sha256 c body = checksum m"
  shows "\<exists>w1. fetch_remote c m loc False (w\<lparr>log := l\<rparr>) = (Inr (final_path m d), w1) \<and> cwd w1 = cwd w \<and>
    dl_effect c m d (fs w) (fs w1) \<and> fs w1 (final_path m d) \<noteq> None \<and>
    (\<forall>u. u \<noteq> url m \<longrightarrow> net w1 u = net w u) \<and> log w1 = l"
proof -
  let ?wl = "w\<lparr>log := l\<rparr>"
  have fin: "fs w (final_path m d) = None"
    using miss os_exists_join [OF loc sm] by (simp add: final_path_def)
  have q': "net ?wl (url m) = xs @ Ok body # ys" and dir': "fs ?wl d = Some Dir"
    and tmp': "fs ?wl (tmp_path c m d) \<noteq> Some Dir" using q dir tmp by simp_all
  obtain w1 where a: "fetch_attempts c m d (max_attempts c) 0 ?wl = (Inr (final_path m d), w1)"
    using fetch_attempts_succeeds [OF q' tr n dir' tmp' _ ck] fin by auto
  then have f: "fetch_remote c m loc False ?wl = (Inr (final_path m d), w1)"
    using loc fin by (simp add: fetch_remote_def)
  have "resolve (cwd ?wl) loc = Some d" using loc by simp
  from fetch_remote_dl [OF f this] fetch_attempts_net [OF a] fetch_attempts_log [OF a] f
  show ?thesis by auto
qed

text \<open>
  The loop downloads every missing file when the host serves each URL within
  the retry bound; it changes no visible entry but the targets.
\<close>

lemma fetch_files_all_serve:
  assumes loc: "resolve (cwd w) loc = Some d" and dir: "fs w d = Some Dir"
    and sm: "list_all (\<lambda>(_, m). simple_name (filename m)) archive"
    and du: "distinct (map (url \<circ> snd) archive)" and df: "distinct (map (filename \<circ> snd) archive)"
    and good: "list_all (\<lambda>(_, m). serves c m (max_attempts c) (net w (url m)) \<and>
      fs w (tmp_path c m d) \<noteq> Some Dir) archive"
  shows "\<exists>w'. fetch_files c loc True archive recs w = (Inr (archive_records loc archive recs), w') \<and>
    cwd w' = cwd w \<and>
    (\<forall>p. visible_path p \<longrightarrow> (\<forall>m \<in> snd ` set archive. p \<noteq> final_path m d) \<longrightarrow> fs w' p = fs w p)"
  using assms
proof (induction archive arbitrary: recs w)
  case Nil
  then show ?case by simp
next
  case (Cons a rest)
  obtain ft m where a: "a = (ft, m)" by fastforce
  let ?recs' = "bunch_setitem ft (local_path_of loc m) recs"
  from Cons.prems a have sm: "simple_name (filename m)"
    and srest: "list_all (\<lambda>(_, m). simple_name (filename m)) rest"
    and urest: "distinct (map (url \<circ> snd) rest)" and frest: "distinct (map (filename \<circ> snd) rest)"
    and gm: "serves c m (max_attempts c) (net w (url m))" "fs w (tmp_path c m d) \<noteq> Some Dir"
    and grest: "list_all (\<lambda>(_, m). serves c m (max_attempts c) (net w (url m)) \<and>
      fs w (tmp_path c m d) \<noteq> Some Dir) rest"
    by (simp_all add: comp_def)
  have uo: "\<forall>m' \<in> snd ` set rest. url m' \<noteq> url m"
    and fo: "\<forall>m' \<in> snd ` set rest. filename m' \<noteq> filename m"
    using Cons.prems(4,5) a by force+
  show ?case
  proof (cases "os_exists w (local_path_of loc m)")
    case True
    with a have "fetch_files c loc True (a # rest) recs w = fetch_files c loc True rest ?recs' w"
      by simp
    with Cons.IH [OF Cons.prems(1,2) srest urest frest grest, of ?recs'] a show ?thesis by auto
  next
    case False
    from serves_split [OF gm(1)] obtain xs b ys where
      q: "net w (url m) = xs @ Ok b # ys" "list_all (\<lambda>x. \<not> is_ok x) xs" "length xs < max_attempts c"
      "sha256 c b = checksum m" by blast
    from fetch_remote_downloads [OF Cons.prems(1) sm Cons.prems(2) gm(2) False q,
        where l = "log w @ [download_msg ft m (local_path_of loc m)]"]
    obtain w1 where f: "fetch_remote c m loc False (w\<lparr>log := log w @ [download_msg ft m (local_path_of loc m)]\<rparr>) =
        (Inr (final_path m d), w1)"
      and cw: "cwd w1 = cwd w" and dl: "dl_effect c m d (fs w) (fs w1)"
      and nt: "\<forall>u. u \<noteq> url m \<longrightarrow> net w1 u = net w u" by blast
    have same: "fs w1 q = fs w q" if "q \<noteq> tmp_path c m d" "q \<noteq> final_path m d" for q
      using dl_effect_other [OF dl that] .
    have loc1: "resolve (cwd w1) loc = Some d" using cw Cons.prems(1) by simp
    have dir1: "fs w1 d = Some Dir" using same [of d] Cons.prems(2) by simp
    have "list_all (\<lambda>(_, m). serves c m (max_attempts c) (net w1 (url m)) \<and>
        fs w1 (tmp_path c m d) \<noteq> Some Dir) rest"
      unfolding list_all_iff
    proof (intro ballI, clarify)
      fix ft' m' assume in': "(ft', m') \<in> set rest"
      then have "url m' \<noteq> url m" "filename m' \<noteq> filename m" using uo fo by force+
      then have "net w1 (url m') = net w (url m')" "fs w1 (tmp_path c m' d) = fs w (tmp_path c m' d)"
        using nt same [of "tmp_path c m' d"] by (simp_all add: tmp_path_def final_path_def)
      with grest in' show "serves c m' (max_attempts c) (net w1 (url m')) \<and>
          fs w1 (tmp_path c m' d) \<noteq> Some Dir"
        by (auto simp: list_all_iff)
    qed
    from Cons.IH [OF loc1 dir1 srest urest frest this, of ?recs'] obtain w' where
      r: "fetch_files c loc True rest ?recs' w1 = (Inr (archive_records loc rest ?recs'), w')"
      and cw': "cwd w' = cwd w1"
      and fr: "\<forall>p. visible_path p \<longrightarrow> (\<forall>m \<in> snd ` set rest. p \<noteq> final_path m d) \<longrightarrow> fs w' p = fs w1 p"
      by blast
    have "fetch_files c loc True (a # rest) recs w = (Inr (archive_records loc (a # rest) recs), w')"
      using a False f r by simp
    moreover have "fs w' p = fs w p"
      if "visible_path p" "\<forall>m \<in> snd ` set (a # rest). p \<noteq> final_path m d" for p
    proof -
      have "p \<noteq> final_path m d" using that(2) a by auto
      moreover have "p \<noteq> tmp_path c m d" using that(1) by auto
      ultimately show ?thesis using fr that same by auto
    qed
    moreover have "cwd w' = cwd w" using cw cw' by simp
    ultimately show ?thesis by blast
  qed
qed

lemma ensure_dir_creates:
  assumes r: "resolve (cwd w) loc = Some (hp @ [Name name])" and hd: "fs w hp = Some Dir"
    and fr: "fs w (hp @ [Name name]) = None \<or> fs w (hp @ [Name name]) = Some Dir"
  shows "ensure_dir loc w = (Inr (), w\<lparr>fs := (fs w)(hp @ [Name name] \<mapsto> Dir)\<rparr>)"
proof (cases "fs w (hp @ [Name name]) = None")
  case True
  then have "\<not> os_exists w loc" using r by (simp add: os_exists_resolve)
  moreover have "makedirs_rev (Name name # rev hp) w = (Inr (), w\<lparr>fs := (fs w)(hp @ [Name name] \<mapsto> Dir)\<rparr>)"
    using True hd by (simp add: mkdir_def)
  ultimately show ?thesis using r by (simp add: ensure_dir_def os_makedirs_def)
next
  case False
  with fr have "fs w (hp @ [Name name]) = Some Dir" by simp
  moreover from this r have "os_exists w loc" by (simp add: os_exists_resolve)
  ultimately show ?thesis by (simp add: ensure_dir_def fun_upd_idem)
qed

text \<open>
  C5. When the file of an archive entry is missing and the host's first answer
  for its URL is a body whose digest is not the entry's checksum, the loop
  stops with \<open>IntegrityError\<close> after exactly one request; the only change to
  the file system is that the temporary file is gone, and no file exists at
  the local path.
\<close>

lemma fetch_files_integrity:
  assumes loc: "resolve (cwd w) loc = Some d" and sm: "simple_name (filename m)"
    and dir: "fs w d = Some Dir" and tmp: "fs w (tmp_path c m d) \<noteq> Some Dir"
    and miss: "\<not> os_exists w (local_path_of loc m)"
    and q: "net w (url m) = Ok body # ys" and n: "0 < max_attempts c"
    and bad: "sha256 c body \<noteq> checksum m"
  shows "\<exists>w'. fetch_files c loc True ((ft, m) # rest) recs w =
      (Inl (IntegrityError (filename m) (checksum m) (sha256 c body)), w') \<and>
    fs w' = (fs w)(tmp_path c m d := None) \<and> requests w' = requests w @ [url m] \<and>
    \<not> os_exists w' (local_path_of loc m) \<and> log w' = log w @ [download_msg ft m (local_path_of loc m)]"
proof -
  let ?wl = "log_info (download_msg ft m (local_path_of loc m)) w"
  have fin: "fs w (final_path m d) = None"
    using miss os_exists_join [OF loc sm] by (simp add: final_path_def)
  have q': "net ?wl (url m) = Ok body # ys" and dir': "fs ?wl d = Some Dir"
    and tmp': "fs ?wl (tmp_path c m d) \<noteq> Some Dir" and loc': "resolve (cwd ?wl) loc = Some d"
    using q dir tmp loc by simp_all
  obtain w' where a: "fetch_attempts c m d (max_attempts c) 0 ?wl =
      (Inl (IntegrityError (filename m) (checksum m) (sha256 c body)), w')"
    and fs': "fs w' = (fs w)(tmp_path c m d := None)" and rq: "requests w' = requests w @ [url m]"
    using fetch_attempts_integrity [OF q' n dir' tmp' bad] by auto
  then have f: "fetch_remote c m loc False ?wl =
      (Inl (IntegrityError (filename m) (checksum m) (sha256 c body)), w')"
    using loc fin by (simp add: fetch_remote_def)
  from fetch_remote_dl [OF f loc'] have "cwd w' = cwd w" by simp
  then have "\<not> os_exists w' (local_path_of loc m)"
    using os_exists_join [of w' loc d "filename m"] loc sm fs' fin by (simp add: final_path_def)
  moreover have "fetch_files c loc True ((ft, m) # rest) recs w =
      (Inl (IntegrityError (filename m) (checksum m) (sha256 c body)), w')"
    using miss f by simp
  moreover have "log w' = log w @ [download_msg ft m (local_path_of loc m)]"
    using fetch_remote_log [OF f] by simp
  ultimately show ?thesis using fs' rq by blast
qed

text \<open>
  C6. When the file of an archive entry is missing and the host answers its URL
  with fewer transient failures than \<open>max_attempts\<close> followed by the right
  body, the download succeeds: the loop goes on with the rest of the archive,
  the role recorded, from a world in which the local path exists.
\<close>

lemma fetch_files_download_progress:
  assumes loc: "resolve (cwd w) loc = Some d" and sm: "simple_name (filename m)"
    and dir: "fs w d = Some Dir" and tmp: "fs w (tmp_path c m d) \<noteq> Some Dir"
    and miss: "\<not> os_exists w (local_path_of loc m)"
    and q: "net w (url m) = xs @ Ok body # ys" and tr: "list_all (\<lambda>x. \<not> is_ok x) xs"
    and n: "length xs < max_attempts c" and ck: "sha256 c body = checksum m"
  shows "\<exists>w1. fetch_files c loc True ((ft, m) # rest) recs w =
      fetch_files c loc True rest (bunch_setitem ft (local_path_of loc m) recs) w1 \<and>
    os_exists w1 (local_path_of loc m) \<and> log w1 = log w @ [download_msg ft m (local_path_of loc m)]"
proof -
  obtain w1 where f: "fetch_remote c m loc False (log_info (download_msg ft m (local_path_of loc m)) w) =
      (Inr (final_path m d), w1)"
    and "cwd w1 = cwd w" and "fs w1 (final_path m d) \<noteq> None"
    and "log w1 = log w @ [download_msg ft m (local_path_of loc m)]"
    using fetch_remote_downloads [OF assms, where l = "log w @ [download_msg ft m (local_path_of loc m)]"]
    by auto
  moreover from this have "os_exists w1 (local_path_of loc m)"
    using os_exists_join [of w1 loc d "filename m"] loc sm by (simp add: final_path_def)
  moreover have "fetch_files c loc True ((ft, m) # rest) recs w =
      fetch_files c loc True rest (bunch_setitem ft (local_path_of loc m) recs) w1"
    using miss f by simp
  ultimately show ?thesis by blast
qed

text \<open>
  C10. Offline, the loop is equivalent to a reference that first looks for the
  first archive entry whose file is missing: if there is one it raises
  \<^verbatim>\<open>IOError\<close> for it, otherwise it returns the bundle of all local paths;
  in both cases the world is unchanged. So the offline loop is all or nothing.
\<close>

theorem fetch_files_offline_reference:
  "fetch_files c loc False archive recs w =
     (case find (\<lambda>(ft, m). \<not> os_exists w (local_path_of loc m)) archive of
        None \<Rightarrow> (Inr (archive_records loc archive recs), w)
      | Some (ft, m) \<Rightarrow> (Inl (MissingDataError ft (local_path_of loc m)), w))"
  by (induction archive arbitrary: recs) (auto simp: Let_def split: option.splits)

text \<open>
  C14. When the file of an archive entry is missing and the host answers its
  URL with \<open>max_attempts\<close> transient failures in a row, the loop stops with
  \<open>TransientFetchError\<close> after exactly \<open>max_attempts\<close> requests, and the
  file system is as it was.
\<close>

theorem fetch_files_transient:
  assumes loc: "resolve (cwd w) loc = Some d" and sm: "simple_name (filename m)"
    and miss: "\<not> os_exists w (local_path_of loc m)"
    and q: "net w (url m) = xs @ ys" and tr: "list_all (\<lambda>x. \<not> is_ok x) xs"
    and n: "length xs = max_attempts c" and pos: "0 < max_attempts c"
  shows "\<exists>w'. fetch_files c loc True ((ft, m) # rest) recs w =
      (Inl (TransientFetchError (url m) (max_attempts c)), w') \<and>
    fs w' = fs w \<and> requests w' = requests w @ replicate (max_attempts c) (url m) \<and>
    log w' = log w @ [download_msg ft m (local_path_of loc m)]"
proof -
  let ?wl = "log_info (download_msg ft m (local_path_of loc m)) w"
  have fin: "fs w (final_path m d) = None"
    using miss os_exists_join [OF loc sm] by (simp add: final_path_def)
  have q': "net ?wl (url m) = xs @ ys" using q by simp
  obtain w' where a: "fetch_attempts c m d (max_attempts c) 0 ?wl =
      (Inl (TransientFetchError (url m) (max_attempts c)), w')"
    and r: "fs w' = fs w \<and> requests w' = requests w @ replicate (max_attempts c) (url m)"
    using fetch_attempts_transient [OF q' tr n pos, of c d 0] by auto
  then have f: "fetch_remote c m loc False ?wl = (Inl (TransientFetchError (url m) (max_attempts c)), w')"
    using loc fin by (simp add: fetch_remote_def)
  moreover have "log w' = log w @ [download_msg ft m (local_path_of loc m)]"
    using fetch_remote_log [OF f] by simp
  ultimately show ?thesis using miss r by simp
qed

end
