(* ===== verification/AdkEquilibrium.thy ===== *)
theory AdkEquilibrium
  imports Fetcher
begin

text \<open>
  \<^verbatim>\<open>src/MDAnalysisData/adk_equilibrium.py\<close>: the AdK equilibrium trajectory
  without water, two files (a PSF topology and a DCD trajectory) from
  figshare.
\<close>

definition adk_NAME :: string where
  "adk_NAME = ''adk_equilibrium''"

definition adk_DESCRIPTION :: string where
  "adk_DESCRIPTION = ''adk_equilibrium.rst''"

definition adk_ARCHIVE :: archive where
  "adk_ARCHIVE =
     [(''topology'',
       \<lparr>filename = ''adk4AKE.psf'',
        url = ''https://ndownloader.figshare.com/files/8672230'',
        checksum = ''1aa947d58fb41b6805dc1e7be4dbe65c6a8f4690f0bd7fc2ae03e7bd437085f4''\<rparr>),
      (''trajectory'',
       \<lparr>filename = ''1ake_007-nowater-core-dt240ps.dcd'',
        url = ''https://ndownloader.figshare.com/files/8672074'',
        checksum = ''598fcbcfcc425f6eafbe9997238320fcacc6a4613ecce061e1521732bab734bf''\<rparr>)]"

text \<open>
  \<^verbatim>\<open>fetch_adk_equilibrium(data_home=None, download_if_missing=True)\<close>; the
  package directory \<^verbatim>\<open>dirname(__file__)\<close> is a parameter.
\<close>

definition fetch_adk_equilibrium :: "cfg \<Rightarrow> string \<Rightarrow> string option \<Rightarrow> bool \<Rightarrow> bunch act" where
  "fetch_adk_equilibrium c module_path data_home download_if_missing =
     fetch_dataset c adk_NAME adk_DESCRIPTION adk_ARCHIVE module_path data_home download_if_missing"

text \<open>
  An example process and world for the witnesses of the root theory: the package is
  installed under \<^verbatim>\<open>/pkg\<close> with its description file, \<^verbatim>\<open>HOME\<close> is
  \<^verbatim>\<open>/home/u\<close> (also the working directory) with no cache yet, and the host
  answers the topology URL with the topology bytes and the trajectory URL
  first not at all and then with the trajectory bytes. The hash function
  maps exactly these two byte strings to the two checksums of the archive.
\<close>

definition adk_demo_cfg :: cfg where
  "adk_demo_cfg =
     \<lparr>sha256 = (\<lambda>b. if b = ''PSF-bytes'' then checksum (snd (adk_ARCHIVE ! 0))
                    else if b = ''DCD-bytes'' then checksum (snd (adk_ARCHIVE ! 1)) else ''0''),
      pid = 7, max_attempts = 3, timeout = 30\<rparr>"

definition adk_demo_fs :: fsys where
  "adk_demo_fs =
     Map.empty([] \<mapsto> Dir, [Name ''home''] \<mapsto> Dir, [Name ''home'', Name ''u''] \<mapsto> Dir,
       [Name ''pkg''] \<mapsto> Dir, [Name ''pkg'', Name ''descr''] \<mapsto> Dir,
       [Name ''pkg'', Name ''descr'', Name ''adk_equilibrium.rst''] \<mapsto> File ''AdK description'')"

definition adk_demo_world :: world where
  "adk_demo_world =
     \<lparr>fs = adk_demo_fs, cwd = [Name ''home'', Name ''u''],
      environ = Map.empty(''HOME'' \<mapsto> ''/home/u''),
      net = (\<lambda>u. if u = url (snd (adk_ARCHIVE ! 0)) then [Ok ''PSF-bytes'']
                 else if u = url (snd (adk_ARCHIVE ! 1)) then [Stall, Ok ''DCD-bytes''] else []),
      requests = [], clock = 0, log = []\<rparr>"

text \<open>
  The dataset directory of the example; the same world once the directory has
  been created; and with a corrupted cache in it (both files truncated).
\<close>

definition adk_demo_dir :: path where
  "adk_demo_dir = [Name ''home'', Name ''u'', Name ''MDAnalysis_data'', Name ''adk_equilibrium'']"

definition adk_prepared_world :: world where
  "adk_prepared_world =
     adk_demo_world\<lparr>fs := adk_demo_fs(
        [Name ''home'', Name ''u'', Name ''MDAnalysis_data''] \<mapsto> Dir, adk_demo_dir \<mapsto> Dir)\<rparr>"

definition adk_corrupt_world :: world where
  "adk_corrupt_world =
     adk_prepared_world\<lparr>fs := (fs adk_prepared_world)(
        adk_demo_dir @ [Name ''adk4AKE.psf''] \<mapsto> File ''truncated'',
        adk_demo_dir @ [Name ''1ake_007-nowater-core-dt240ps.dcd''] \<mapsto> File ''truncated'')\<rparr>"

text \<open>The bundle the example run returns.\<close>

definition adk_demo_bundle :: bunch where
  "adk_demo_bundle =
     [(''topology'', ''/home/u/MDAnalysis_data/adk_equilibrium/adk4AKE.psf''),
      (''trajectory'', ''/home/u/MDAnalysis_data/adk_equilibrium/1ake_007-nowater-core-dt240ps.dcd''),
      (''DESCR'', ''AdK description'')]"

text \<open>The prepared world with a host that answers every URL with a corrupted body.\<close>

definition adk_bad_host_world :: world where
  "adk_bad_host_world = adk_prepared_world\<lparr>net := (\<lambda>u. [Ok ''garbage''])\<rparr>"

section \<open>Lemmas\<close>

lemma adk_wf_archive: "wf_archive adk_ARCHIVE"
  by (simp add: wf_archive_def adk_ARCHIVE_def simple_name_def)

lemma adk_simple_name: "simple_name adk_NAME"
  by (simp add: adk_NAME_def simple_name_def)

text \<open>Facts of the example worlds, evaluated.\<close>

lemma adk_demo_cwd_visible: "visible_path (cwd adk_demo_world)"
  by code_simp

lemma adk_demo_location:
  "resolve (cwd adk_demo_world) (data_location_of adk_demo_world None adk_NAME) = Some adk_demo_dir"
  by code_simp

lemma adk_demo_run:
  "fetch_dataset adk_demo_cfg adk_NAME adk_DESCRIPTION adk_ARCHIVE ''/pkg'' None True adk_demo_world =
     (Inr adk_demo_bundle,
      snd (fetch_dataset adk_demo_cfg adk_NAME adk_DESCRIPTION adk_ARCHIVE ''/pkg'' None True adk_demo_world))"
proof -
  have "fst (fetch_dataset adk_demo_cfg adk_NAME adk_DESCRIPTION adk_ARCHIVE ''/pkg'' None True adk_demo_world) =
      Inr adk_demo_bundle"
    by code_simp
  then show ?thesis by (metis prod.collapse)
qed

lemma adk_corrupt_cached:
  "os_exists adk_corrupt_world (data_home_path adk_corrupt_world None)"
  "os_exists adk_corrupt_world (data_location_of adk_corrupt_world None adk_NAME)"
  "\<forall>(ft, m) \<in> set adk_ARCHIVE.
     os_exists adk_corrupt_world (posix_join (data_location_of adk_corrupt_world None adk_NAME) (filename m))"
  by code_simp+

lemma adk_corrupt_descr:
  "read_file (posix_join (posix_join ''/pkg'' ''descr'') adk_DESCRIPTION) adk_corrupt_world =
     (Inr ''AdK description'', adk_corrupt_world)"
proof -
  have "fst (read_file (posix_join (posix_join ''/pkg'' ''descr'') adk_DESCRIPTION) adk_corrupt_world) =
      Inr ''AdK description''"
    by code_simp
  then show ?thesis by (metis read_file_pair)
qed

end
