(* ===== verification/IfabpWater.thy ===== *)
theory IfabpWater
  imports Fetcher
begin

text \<open>
  \<^verbatim>\<open>src/MDAnalysisData/ifabp_water.py\<close>: a short MD run of I-FABP in water,
  three files (PSF topology, PDB structure, DCD trajectory) from figshare.
\<close>

definition ifabp_NAME :: string where
  "ifabp_NAME = ''ifabp_water''"

definition ifabp_DESCRIPTION :: string where
  "ifabp_DESCRIPTION = ''ifabp_water.rst''"

definition ifabp_ARCHIVE :: archive where
  "ifabp_ARCHIVE =
     [(''topology'',
       \<lparr>filename = ''ifabp_water.psf'',
        url = ''https://ndownloader.figshare.com/files/12980639'',
        checksum = ''ba40714318aabec537015dc550fe5bd5ac1ac0b853f5abdd2f0ae63af9cfcafa''\<rparr>),
      (''structure'',
       \<lparr>filename = ''ifabp_water_0.pdb'',
        url = ''https://ndownloader.figshare.com/files/12980636'',
        checksum = ''8ccf5f75fd85385921c0cb77f00281a93b933fc1261c42fc9492f43983448a72''\<rparr>),
      (''trajectory'',
       \<lparr>filename = ''rmsfit_ifabp_water_1.dcd'',
        url = ''https://ndownloader.figshare.com/files/12980642'',
        checksum = ''cebb48e58015abc8ff2f5bb7ba3eb7a289047f256351a8252bf1f29f9aaacf0e''\<rparr>)]"

text \<open>\<^verbatim>\<open>fetch_ifabp_water(data_home=None, download_if_missing=True)\<close>.\<close>

definition fetch_ifabp_water :: "cfg \<Rightarrow> string \<Rightarrow> string option \<Rightarrow> bool \<Rightarrow> bunch act" where
  "fetch_ifabp_water c module_path data_home download_if_missing =
     fetch_dataset c ifabp_NAME ifabp_DESCRIPTION ifabp_ARCHIVE module_path data_home download_if_missing"

text \<open>
  An example: the package under \<^verbatim>\<open>/pkg\<close> with the description file,
  \<^verbatim>\<open>HOME=/home/u\<close>, \<^verbatim>\<open>MDANALYSIS_DATA=/data\<close> with \<^verbatim>\<open>/data\<close>
  present and empty, and a host that answers each of the three URLs with the
  right body at once. The hash function maps the three bodies to the three
  checksums.
\<close>

definition ifabp_demo_cfg :: cfg where
  "ifabp_demo_cfg =
     \<lparr>sha256 = (\<lambda>b. case map_of (zip [''PSF'', ''PDB'', ''DCD''] (map (checksum \<circ> snd) ifabp_ARCHIVE)) b of
                     Some h \<Rightarrow> h | None \<Rightarrow> ''0''),
      pid = 11, max_attempts = 2, timeout = 10\<rparr>"

definition ifabp_demo_world :: world where
  "ifabp_demo_world =
     \<lparr>fs = Map.empty([] \<mapsto> Dir, [Name ''data''] \<mapsto> Dir, [Name ''home''] \<mapsto> Dir,
        [Name ''home'', Name ''u''] \<mapsto> Dir, [Name ''pkg''] \<mapsto> Dir, [Name ''pkg'', Name ''descr''] \<mapsto> Dir,
        [Name ''pkg'', Name ''descr'', Name ''ifabp_water.rst''] \<mapsto> File ''I-FABP description''),
      cwd = [Name ''home'', Name ''u''],
      environ = Map.empty(''HOME'' \<mapsto> ''/home/u'', ''MDANALYSIS_DATA'' \<mapsto> ''/data''),
      net = (\<lambda>u. case map_of (zip (map (url \<circ> snd) ifabp_ARCHIVE) [''PSF'', ''PDB'', ''DCD'']) u of
                  Some b \<Rightarrow> [Ok b] | None \<Rightarrow> []),
      requests = [], clock = 0, log = []\<rparr>"

section \<open>Lemmas\<close>

lemma ifabp_demo_wf: "wf_fs (fs ifabp_demo_world)"
  unfolding wf_fs_def ifabp_demo_world_def
  by (auto simp: snoc_eq_iff_butlast)

end
