(* ===== verification/Interleaving.thy ===== *)
theory Interleaving
  imports Fetcher
begin

text \<open>
  Fetchers in several processes that share one cache (spec section 5). The
  work a fetcher does for one archive entry, from the directory check of
  \<^verbatim>\<open>src/MDAnalysisData/adk_equilibrium.py\<close> lines 95--96 through the
  existence check of line 103 to \<^verbatim>\<open>_fetch_remote\<close> of line 109, is cut into
  its atomic calls to the operating system and the content host: one
  \<open>proc_step\<close> per call, from a program counter \<open>pc\<close>. Run alone, a process
  computes exactly what the big-step model \<open>ensure_dir\<close> followed by
  \<open>fetch_files\<close> computes (\<open>proc_run_refines\<close>). Two processes that
  differ only in their process id are interleaved by the inductive relation
  \<open>reach2\<close>.
\<close>

datatype pc =
    CheckDir | MakeDir | CheckFile | RemoteCheck
  | Get path nat nat | Store path content | Verify path content | Place path
  | Done | Failed error

fun terminal :: "pc \<Rightarrow> bool" where
  "terminal Done = True"
| "terminal (Failed _) = True"
| "terminal _ = False"

text \<open>One atomic call of a process fetching the file \<open>m\<close> into the directory string \<open>loc\<close>.\<close>

fun proc_step :: "cfg \<Rightarrow> string \<Rightarrow> remote_meta \<Rightarrow> string \<Rightarrow> pc \<Rightarrow> world \<Rightarrow> pc \<times> world" where
  "proc_step c ft m loc CheckDir w = (if \<not> os_exists w loc then MakeDir else CheckFile, w)"
| "proc_step c ft m loc MakeDir w =
     (case os_makedirs loc w of (Inl e, w1) \<Rightarrow> (Failed e, w1) | (Inr _, w1) \<Rightarrow> (CheckFile, w1))"
| "proc_step c ft m loc CheckFile w =
     (if \<not> os_exists w (local_path_of loc m)
      then (RemoteCheck, log_info (download_msg ft m (local_path_of loc m)) w) else (Done, w))"
| "proc_step c ft m loc RemoteCheck w =
     (case resolve (cwd w) loc of
        None \<Rightarrow> (Failed (FilesystemError ENOENT []), w)
      | Some d \<Rightarrow> if fs w (final_path m d) \<noteq> None then (Done, w) else (Get d (max_attempts c) 0, w))"
| "proc_step c ft m loc (Get d 0 k) w = (Failed (TransientFetchError (url m) k), w)"
| "proc_step c ft m loc (Get d (Suc n) k) w =
     (case http_get c (url m) w of
        (Ok body, w1) \<Rightarrow> (Store d body, w1)
      | (_, w1) \<Rightarrow>
          if n = 0 then (Failed (TransientFetchError (url m) (Suc k)), w1)
          else (Get d n (Suc k), w1\<lparr>clock := clock w1 + backoff k\<rparr>))"
| "proc_step c ft m loc (Store d body) w =
     (case write_file (tmp_path c m d) body w of
        (Inl e, w1) \<Rightarrow> (Failed e, w1) | (Inr _, w1) \<Rightarrow> (Verify d body, w1))"
| "proc_step c ft m loc (Verify d body) w =
     (if sha256 c body \<noteq> checksum m then
        (case remove_file (tmp_path c m d) w of
           (Inl e, w1) \<Rightarrow> (Failed e, w1)
         | (Inr _, w1) \<Rightarrow> (Failed (IntegrityError (filename m) (checksum m) (sha256 c body)), w1))
      else (Place d, w))"
| "proc_step c ft m loc (Place d) w =
     (case rename_file (tmp_path c m d) (final_path m d) w of
        (Inl e, w1) \<Rightarrow>
          (case remove_file (tmp_path c m d) w1 of (Inl e', w2) \<Rightarrow> (Failed e', w2) | (Inr _, w2) \<Rightarrow> (Failed e, w2))
      | (Inr _, w1) \<Rightarrow> (Done, w1))"
| "proc_step c ft m loc Done w = (Done, w)"
| "proc_step c ft m loc (Failed e) w = (Failed e, w)"

text \<open>A process run alone for at most \<open>f\<close> steps.\<close>

fun proc_run :: "nat \<Rightarrow> cfg \<Rightarrow> string \<Rightarrow> remote_meta \<Rightarrow> string \<Rightarrow> pc \<Rightarrow> world \<Rightarrow> pc \<times> world" where
  "proc_run 0 c ft m loc s w = (s, w)"
| "proc_run (Suc f) c ft m loc s w =
     (if terminal s then (s, w) else case proc_step c ft m loc s w of (s', w') \<Rightarrow> proc_run f c ft m loc s' w')"

text \<open>The final program counter a big-step result corresponds to.\<close>

fun to_pc :: "(error + 'a) \<times> world \<Rightarrow> pc \<times> world" where
  "to_pc (Inl e, w) = (Failed e, w)"
| "to_pc (Inr _, w) = (Done, w)"

text \<open>
  How many steps a process has left at most: four checks, one step per
  remaining attempt, and three steps to store a body.
\<close>

fun pc_rank :: "cfg \<Rightarrow> pc \<Rightarrow> nat" where
  "pc_rank c CheckDir = max_attempts c + 7"
| "pc_rank c MakeDir = max_attempts c + 6"
| "pc_rank c CheckFile = max_attempts c + 5"
| "pc_rank c RemoteCheck = max_attempts c + 4"
| "pc_rank c (Get d n k) = n + 3"
| "pc_rank c (Store d b) = 3"
| "pc_rank c (Verify d b) = 2"
| "pc_rank c (Place d) = 1"
| "pc_rank c Done = 0"
| "pc_rank c (Failed e) = 0"

text \<open>
  Two processes with process ids \<open>p1\<close> and \<open>p2\<close> and otherwise the same
  configuration fetch the same file into the same directory string, each
  from \<open>CheckDir\<close>; any interleaving of their atomic steps may happen.
\<close>

inductive reach2 :: "cfg \<Rightarrow> nat \<Rightarrow> nat \<Rightarrow> string \<Rightarrow> remote_meta \<Rightarrow> string \<Rightarrow> world \<Rightarrow> pc \<times> pc \<times> world \<Rightarrow> bool"
  for c p1 p2 ft m loc w0 where
  start: "reach2 c p1 p2 ft m loc w0 (CheckDir, CheckDir, w0)"
| left: "reach2 c p1 p2 ft m loc w0 (s1, s2, w) \<Longrightarrow> \<not> terminal s1 \<Longrightarrow>
    proc_step (c\<lparr>pid := p1\<rparr>) ft m loc s1 w = (s1', w') \<Longrightarrow> reach2 c p1 p2 ft m loc w0 (s1', s2, w')"
| right: "reach2 c p1 p2 ft m loc w0 (s1, s2, w) \<Longrightarrow> \<not> terminal s2 \<Longrightarrow>
    proc_step (c\<lparr>pid := p2\<rparr>) ft m loc s2 w = (s2', w') \<Longrightarrow> reach2 c p1 p2 ft m loc w0 (s1, s2', w')"

text \<open>The target in directory \<open>D\<close> is absent or a verified file.\<close>

definition final_ok :: "cfg \<Rightarrow> remote_meta \<Rightarrow> path \<Rightarrow> world \<Rightarrow> bool" where
  "final_ok c m D w \<longleftrightarrow>
     (case fs w (final_path m D) of None \<Rightarrow> True | Some Dir \<Rightarrow> False | Some (File b) \<Rightarrow> sha256 c b = checksum m)"

text \<open>What a process at a given step knows of its own temporary file.\<close>

fun pc_inv :: "cfg \<Rightarrow> remote_meta \<Rightarrow> path \<Rightarrow> pc \<Rightarrow> world \<Rightarrow> bool" where
  "pc_inv c m D (Get d n k) w = (d = D)"
| "pc_inv c m D (Store d b) w = (d = D)"
| "pc_inv c m D (Verify d b) w = (d = D \<and> fs w (tmp_path c m D) = Some (File b))"
| "pc_inv c m D (Place d) w =
     (d = D \<and> (case fs w (tmp_path c m D) of Some (File b) \<Rightarrow> sha256 c b = checksum m | _ \<Rightarrow> False))"
| "pc_inv c m D _ w = True"

section \<open>Lemmas\<close>

lemma proc_run_terminal: "terminal s \<Longrightarrow> proc_run f c ft m loc s w = (s, w)"
  by (cases f) simp_all

lemma proc_run_step:
  "\<not> terminal s \<Longrightarrow>
     proc_run (Suc f) c ft m loc s w = (case proc_step c ft m loc s w of (s', w') \<Rightarrow> proc_run f c ft m loc s' w')"
  by simp

lemma terminal_to_pc: "terminal (fst (to_pc r))"
  by (cases r rule: to_pc.cases) simp_all

lemma proc_run_mono:
  "proc_run f c ft m loc s w = (s', w') \<Longrightarrow> terminal s' \<Longrightarrow> proc_run (f + g) c ft m loc s w = (s', w')"
proof (induction f arbitrary: s w)
  case 0
  then show ?case by (simp add: proc_run_terminal)
next
  case (Suc f)
  then show ?case by (auto split: if_splits prod.splits)
qed

lemma proc_run_mono_le:
  assumes "proc_run f c ft m loc s w = r" and "terminal (fst r)" and "f \<le> f'"
  shows "proc_run f' c ft m loc s w = r"
proof -
  obtain g where "f' = f + g" using assms(3) le_Suc_ex by blast
  with proc_run_mono [of f c ft m loc s w "fst r" "snd r" g] assms(1,2) show ?thesis by simp
qed

lemma proc_run_store:
  "proc_run (Suc (Suc (Suc 0))) c ft m loc (Store d body) w = to_pc (store_verified c m d body w)"
proof -
  obtain r1 w1 where wr: "write_file (tmp_path c m d) body w = (r1, w1)" by fastforce
  obtain r2 w2 where rm: "remove_file (tmp_path c m d) w1 = (r2, w2)" by fastforce
  obtain r3 w3 where rn: "rename_file (tmp_path c m d) (final_path m d) w1 = (r3, w3)" by fastforce
  obtain r4 w4 where rm2: "remove_file (tmp_path c m d) w3 = (r4, w4)" by fastforce
  show ?thesis
    using wr rm rn rm2
    by (cases r1; cases r2; cases r3; cases r4) (simp_all add: store_verified_def est_bind_def)
qed

lemma proc_run_get:
  "proc_run (Suc (Suc (Suc n))) c ft m loc (Get d n k) w = to_pc (fetch_attempts c m d n k w)"
proof (induction c m d n k w rule: fetch_attempts_induct_step)
  case (zero c m d k w)
  then show ?case by simp
next
  case (step c m d n k w)
  obtain x w1 where h: "http_get c (url m) w = (x, w1)" by fastforce
  show ?case
  proof (cases "is_ok x")
    case True
    then obtain body where x: "x = Ok body" by (cases x) auto
    have "proc_run (Suc (Suc (Suc n))) c ft m loc (Store d body) w1 = to_pc (store_verified c m d body w1)"
      by (rule proc_run_mono_le [OF proc_run_store terminal_to_pc]) simp
    with h x show ?thesis by simp
  next
    case False
    show ?thesis
    proof (cases "n = 0")
      case True
      with h False show ?thesis by (cases x) simp_all
    next
      case nz: False
      from step [OF h False nz] h False nz show ?thesis
        by (cases x) (simp_all add: proc_run_mono_le)
    qed
  qed
qed

lemma proc_run_remote:
  "proc_run (Suc (Suc (Suc (Suc (max_attempts c))))) c ft m loc RemoteCheck w =
     to_pc (fetch_remote c m loc False w)"
proof (cases "resolve (cwd w) loc")
  case None
  then show ?thesis by (simp add: fetch_remote_def)
next
  case (Some d)
  show ?thesis
  proof (cases "fs w (final_path m d) = None")
    case True
    obtain r w' where a: "fetch_attempts c m d (max_attempts c) 0 w = (r, w')" by fastforce
    from proc_run_get [of "max_attempts c" c ft m loc d 0 w] a
    have "proc_run (Suc (Suc (Suc (max_attempts c)))) c ft m loc (Get d (max_attempts c) 0) w = to_pc (r, w')"
      by simp
    with Some True a show ?thesis by (simp add: fetch_remote_def)
  next
    case False
    with Some show ?thesis by (simp add: fetch_remote_def)
  qed
qed

lemma proc_run_checkfile:
  "proc_run (Suc (Suc (Suc (Suc (Suc (max_attempts c)))))) c ft m loc CheckFile w =
     to_pc (fetch_files c loc True [(ft, m)] recs w)"
proof (cases "os_exists w (local_path_of loc m)")
  case True
  then show ?thesis by simp
next
  case False
  let ?wl = "w\<lparr>log := log w @ [download_msg ft m (local_path_of loc m)]\<rparr>"
  obtain r w' where f: "fetch_remote c m loc False ?wl = (r, w')" by fastforce
  from proc_run_remote [of c ft m loc ?wl] f False show ?thesis
    by (cases r) (simp_all add: Let_def)
qed

lemma proc_run_checkdir:
  "proc_run (Suc (Suc (Suc (Suc (Suc (Suc (Suc (max_attempts c)))))))) c ft m loc CheckDir w =
     to_pc (est_bind (ensure_dir loc) (\<lambda>_. fetch_files c loc True [(ft, m)] recs) w)"
proof -
  have cf: "proc_run f c ft m loc CheckFile w' = to_pc (fetch_files c loc True [(ft, m)] recs w')"
    if "Suc (Suc (Suc (Suc (Suc (max_attempts c))))) \<le> f" for f w'
    using proc_run_mono_le [OF proc_run_checkfile terminal_to_pc that] .
  show ?thesis
  proof (cases "os_exists w loc")
    case True
    then show ?thesis
      by (simp del: proc_run.simps add: proc_run_step ensure_dir_def est_bind_def cf)
  next
    case False
    obtain r w1 where mk: "os_makedirs loc w = (r, w1)" by fastforce
    with False show ?thesis
      by (cases r) (simp_all del: proc_run.simps add: proc_run_step proc_run_terminal
          ensure_dir_def est_bind_def cf)
  qed
qed

text \<open>
  C12. Run alone with enough steps, the small-step process computes exactly
  what the big-step model computes for one archive entry: the directory step
  \<open>ensure_dir\<close> followed by the loop \<open>fetch_files\<close>; the same error or
  success, and the same world.
\<close>

theorem proc_run_refines:
  "proc_run (max_attempts c + 7) c ft m loc CheckDir w =
     to_pc (est_bind (ensure_dir loc) (\<lambda>_. fetch_files c loc True [(ft, m)] recs) w)"
  by (rule proc_run_mono_le [OF proc_run_checkdir terminal_to_pc]) simp

lemma write_file_frame:
  "write_file p b w = (r, w') \<Longrightarrow>
     cwd w' = cwd w \<and> (\<forall>q. q \<noteq> p \<longrightarrow> fs w' q = fs w q) \<and> (r = Inr () \<longrightarrow> fs w' p = Some (File b))"
  by (auto simp: write_file_def split: option.splits node.splits if_splits)

lemma remove_file_frame:
  "remove_file p w = (r, w') \<Longrightarrow> cwd w' = cwd w \<and> (\<forall>q. q \<noteq> p \<longrightarrow> fs w' q = fs w q)"
  by (auto simp: remove_file_def split: option.splits node.splits)

lemma rename_file_frame:
  "rename_file src dst w = (r, w') \<Longrightarrow>
     cwd w' = cwd w \<and> (\<forall>q. q \<noteq> src \<and> q \<noteq> dst \<longrightarrow> fs w' q = fs w q) \<and>
     (r = Inr () \<longrightarrow> (\<exists>b. fs w src = Some (File b) \<and> fs w' dst = Some (File b))) \<and>
     (\<forall>e. r = Inl e \<longrightarrow> w' = w)"
  by (auto simp: rename_file_def split: option.splits node.splits if_splits)

lemma final_ok_pid [simp]: "final_ok (c\<lparr>pid := p\<rparr>) m D w = final_ok c m D w"
  by (simp add: final_ok_def split: option.splits node.splits)

lemma final_ok_log [simp]: "final_ok c m D (w\<lparr>log := l\<rparr>) = final_ok c m D w"
  by (simp add: final_ok_def)

lemma final_ok_frame: "fs w' (final_path m D) = fs w (final_path m D) \<Longrightarrow> final_ok c m D w \<Longrightarrow> final_ok c m D w'"
  by (simp add: final_ok_def)

lemma pc_inv_frame:
  "fs w' (tmp_path c m D) = fs w (tmp_path c m D) \<Longrightarrow> pc_inv c m D s w' \<longleftrightarrow> pc_inv c m D s w"
  by (cases s) simp_all

lemma final_ne_tmp [simp]: "final_path m D \<noteq> tmp_path c m D"
  by (simp add: final_path_def tmp_path_def)

lemma final_not_prefix [simp]: "\<not> prefix (final_path m D) D" "\<not> prefix (tmp_path c m D) D"
  by (simp_all add: final_path_def tmp_path_def)

text \<open>
  One step of a process keeps the working directory, keeps the target verified
  or absent, establishes what its next step knows of its temporary file, and
  changes the file system only at its own temporary file, at the target, and
  at new directories on the way to the dataset directory.
\<close>

lemma proc_step_inv:
  assumes st: "proc_step c ft m loc s w = (s', w')" and D: "resolve (cwd w) loc = Some D"
    and inv: "pc_inv c m D s w" and ok: "final_ok c m D w"
  shows "cwd w' = cwd w \<and> final_ok c m D w' \<and> pc_inv c m D s' w' \<and>
    (\<forall>q. fs w' q \<noteq> fs w q \<longrightarrow> q = tmp_path c m D \<or> q = final_path m D \<or> prefix q D)"
proof (cases s)
  case MakeDir
  obtain r w1 where mk: "os_makedirs loc w = (r, w1)" by fastforce
  note e = os_makedirs_effect [OF mk]
  have ch: "prefix q D" if "fs w1 q \<noteq> fs w q" for q
  proof -
    from e that obtain p where "resolve (cwd w) loc = Some p" and "prefix q p" by blast
    with D show ?thesis by simp
  qed
  have "fs w1 (final_path m D) = fs w (final_path m D)" using ch [of "final_path m D"] by auto
  from final_ok_frame [OF this ok] e have "cwd w1 = cwd w \<and> final_ok c m D w1" by (simp add: fs_only_def)
  with st MakeDir mk ch show ?thesis by (cases r) auto
next
  case (Get d n k)
  show ?thesis
  proof (cases n)
    case 0
    with st Get ok show ?thesis by auto
  next
    case (Suc n')
    obtain x w1 where h: "http_get c (url m) w = (x, w1)" by fastforce
    note hf = http_get_fields [OF h]
    then have ok1: "final_ok c m D w1" using final_ok_frame [of w1 m D w c] ok by simp
    then have "final_ok c m D (w1\<lparr>clock := t\<rparr>)" for t by (simp add: final_ok_def)
    with ok1 st Get Suc h hf inv show ?thesis
      by (cases x) (auto split: if_splits)
  qed
next
  case (Store d b)
  obtain r w1 where wr: "write_file (tmp_path c m d) b w = (r, w1)" by fastforce
  note f = write_file_frame [OF wr]
  with inv Store have "fs w1 (final_path m D) = fs w (final_path m D)" by simp
  from final_ok_frame [OF this ok] have "final_ok c m D w1" .
  with st Store wr f inv show ?thesis by (cases r) auto
next
  case (Verify d b)
  show ?thesis
  proof (cases "sha256 c b = checksum m")
    case True
    with st Verify inv ok show ?thesis by auto
  next
    case False
    obtain r w1 where rm: "remove_file (tmp_path c m d) w = (r, w1)" by fastforce
    note f = remove_file_frame [OF rm]
    with inv Verify have "fs w1 (final_path m D) = fs w (final_path m D)" by simp
    from final_ok_frame [OF this ok] have "final_ok c m D w1" .
    with st Verify False rm f inv show ?thesis by (cases r) auto
  qed
next
  case (Place d)
  obtain r w1 where rn: "rename_file (tmp_path c m d) (final_path m d) w = (r, w1)" by fastforce
  note f = rename_file_frame [OF rn]
  show ?thesis
  proof (cases r)
    case (Inr u)
    with f obtain b where b: "fs w (tmp_path c m d) = Some (File b)" "fs w1 (final_path m d) = Some (File b)"
      by auto
    with inv Place have "sha256 c b = checksum m" by simp
    with b inv Place have "final_ok c m D w1" by (simp add: final_ok_def)
    with st Place rn Inr f inv show ?thesis by auto
  next
    case (Inl e)
    with f have w1: "w1 = w" by simp
    obtain r2 w2 where rm: "remove_file (tmp_path c m d) w1 = (r2, w2)" by fastforce
    note f2 = remove_file_frame [OF rm]
    with inv Place w1 have "fs w2 (final_path m D) = fs w (final_path m D)" by simp
    from final_ok_frame [OF this ok] have "final_ok c m D w2" .
    with st Place rn Inl rm f2 w1 inv show ?thesis by (cases r2) auto
  qed
next
  case CheckDir
  with st ok show ?thesis by (simp split: if_splits)
next
  case CheckFile
  with st ok show ?thesis by (auto split: if_splits)
next
  case RemoteCheck
  with st ok D show ?thesis by (auto split: if_splits)
next
  case Done
  with st ok show ?thesis by auto
next
  case (Failed e)
  with st ok show ?thesis by auto
qed

lemma file_ops_environ:
  "write_file p b w = (r, w') \<Longrightarrow> environ w' = environ w"
  "remove_file p w = (r, w') \<Longrightarrow> environ w' = environ w"
  "rename_file p p' w = (r, w') \<Longrightarrow> environ w' = environ w"
  by (auto simp: write_file_def remove_file_def rename_file_def split: option.splits node.splits if_splits)

lemma proc_step_environ:
  assumes st: "proc_step c ft m loc s w = (s', w')"
  shows "environ w' = environ w"
proof (cases s)
  case MakeDir
  obtain r w1 where mk: "os_makedirs loc w = (r, w1)" by fastforce
  with st MakeDir have "w' = w1" by (cases r) simp_all
  with os_makedirs_effect [OF mk] show ?thesis by (simp add: fs_only_def)
next
  case (Get d n k)
  obtain x w1 where h: "http_get c (url m) w = (x, w1)" by fastforce
  with st Get http_get_fields [OF h] show ?thesis by (cases n; cases x) (auto split: if_splits)
next
  case (Store d b)
  obtain r w1 where wr: "write_file (tmp_path c m d) b w = (r, w1)" by fastforce
  with st Store file_ops_environ(1) [OF wr] show ?thesis by (cases r) auto
next
  case (Verify d b)
  obtain r w1 where rm: "remove_file (tmp_path c m d) w = (r, w1)" by fastforce
  with st Verify file_ops_environ(2) [OF rm] show ?thesis by (cases r) (auto split: if_splits)
next
  case (Place d)
  obtain r w1 where rn: "rename_file (tmp_path c m d) (final_path m d) w = (r, w1)" by fastforce
  obtain r2 w2 where rm: "remove_file (tmp_path c m d) w1 = (r2, w2)" by fastforce
  note e = file_ops_environ(3) [OF rn] file_ops_environ(2) [OF rm]
  with st Place rn rm show ?thesis by (cases r; cases r2) auto
qed (use st in \<open>auto split: if_splits option.splits\<close>)

lemma reach2_left_eval:
  "reach2 c p1 p2 ft m loc w0 (s1, s2, w) \<Longrightarrow> \<not> terminal s1 \<Longrightarrow>
     fst (proc_step (c\<lparr>pid := p1\<rparr>) ft m loc s1 w) = s1' \<Longrightarrow>
     reach2 c p1 p2 ft m loc w0 (s1', s2, snd (proc_step (c\<lparr>pid := p1\<rparr>) ft m loc s1 w))"
  by (metis prod.collapse reach2.left)

lemma reach2_right_eval:
  "reach2 c p1 p2 ft m loc w0 (s1, s2, w) \<Longrightarrow> \<not> terminal s2 \<Longrightarrow>
     fst (proc_step (c\<lparr>pid := p2\<rparr>) ft m loc s2 w) = s2' \<Longrightarrow>
     reach2 c p1 p2 ft m loc w0 (s1, s2', snd (proc_step (c\<lparr>pid := p2\<rparr>) ft m loc s2 w))"
  by (metis prod.collapse reach2.right)

text \<open>
  Every step of a process that has not finished strictly decreases its rank,
  whatever the host and the other processes do.
\<close>

lemma pc_rank_step:
  assumes "\<not> terminal s"
  shows "pc_rank c (fst (proc_step c ft m loc s w)) < pc_rank c s"
proof (cases s)
  case (Get d n k)
  show ?thesis
  proof (cases n)
    case (Suc n')
    obtain x w1 where "http_get c (url m) w = (x, w1)" by fastforce
    with Get Suc show ?thesis by (cases x) simp_all
  qed (use Get in simp)
next
  case MakeDir
  then show ?thesis by (simp split: prod.split sum.split)
next
  case (Store d b)
  then show ?thesis by (simp split: prod.split sum.split)
next
  case (Verify d b)
  then show ?thesis by (simp split: prod.split sum.split)
next
  case (Place d)
  then show ?thesis by (simp split: prod.split sum.split)
next
  case RemoteCheck
  then show ?thesis by (simp split: option.split)
qed (use assms in simp_all)

end
