(* ===== verification/FetchRun.thy ===== *)
theory FetchRun
  imports Interleaving
begin

text \<open>
  A whole call of a fetcher (\<^verbatim>\<open>fetch_adk_equilibrium\<close>, lines 92--116 of
  \<^verbatim>\<open>src/MDAnalysisData/adk_equilibrium.py\<close>; \<^verbatim>\<open>fetch_ifabp_water\<close>,
  lines 99--123 of \<^verbatim>\<open>ifabp_water.py\<close>) cut into its atomic calls: the
  existence check and \<^verbatim>\<open>makedirs\<close> of \<^verbatim>\<open>get_data_home\<close>, the same two
  calls for the dataset directory, one step per existence check of the
  archive loop, the steps of \<open>proc_step\<close> for each download, and the read of
  the description. \<open>run_step\<close> is one atomic call of one process; the
  reflexive transitive closure of \<open>run_trans\<close> is a run of the process
  alone, and \<open>reachN\<close> interleaves any number of processes over one
  world.
\<close>

text \<open>The arguments of one call.\<close>

record fcall =
  call_name :: string
  call_descr :: string
  call_archive :: archive
  call_module :: string
  call_home :: "string option"
  call_dim :: bool

text \<open>
  Where a process is: checking or creating the data home, checking or
  creating the dataset directory \<open>loc\<close>, at the head of the archive loop
  with the entries left and the bundle so far, inside the download of one
  entry (the entries after it, the bundle with its role already recorded,
  and the download's own program counter), reading the description, or
  finished with the call's result.
\<close>

datatype rpc =
    HomeCheck | HomeMake string
  | DirCheck string | DirMake string
  | Next string archive bunch
  | Entry string string remote_meta archive bunch pc
  | Descr bunch
  | Finished "error + bunch"

fun finished :: "rpc \<Rightarrow> bool" where
  "finished (Finished _) = True"
| "finished _ = False"

text \<open>Where a process goes when the download of an entry ends.\<close>

fun entry_next :: "string \<Rightarrow> string \<Rightarrow> remote_meta \<Rightarrow> archive \<Rightarrow> bunch \<Rightarrow> pc \<Rightarrow> rpc" where
  "entry_next loc ft m rest recs Done = Next loc rest recs"
| "entry_next loc ft m rest recs (Failed e) = Finished (Inl e)"
| "entry_next loc ft m rest recs s = Entry loc ft m rest recs s"

fun run_step :: "cfg \<Rightarrow> fcall \<Rightarrow> rpc \<Rightarrow> world \<Rightarrow> rpc \<times> world" where
  "run_step c q HomeCheck w =
     (let home = data_home_path w (call_home q)
      in if \<not> os_exists w home then (HomeMake home, w)
         else (DirCheck (posix_join home (call_name q)), w))"
| "run_step c q (HomeMake home) w =
     (case os_makedirs_exist_ok home w of
        (Inl e, w1) \<Rightarrow> (Finished (Inl e), w1)
      | (Inr _, w1) \<Rightarrow> (DirCheck (posix_join home (call_name q)), w1))"
| "run_step c q (DirCheck loc) w =
     (if \<not> os_exists w loc then (DirMake loc, w) else (Next loc (call_archive q) [], w))"
| "run_step c q (DirMake loc) w =
     (case os_makedirs loc w of
        (Inl e, w1) \<Rightarrow> (Finished (Inl e), w1)
      | (Inr _, w1) \<Rightarrow> (Next loc (call_archive q) [], w1))"
| "run_step c q (Next loc [] recs) w = (Descr recs, w)"
| "run_step c q (Next loc ((ft, m) # rest) recs) w =
     (let local_path = local_path_of loc m;
          recs' = bunch_setitem ft local_path recs
      in if \<not> os_exists w local_path then
           (if \<not> call_dim q then (Finished (Inl (MissingDataError ft local_path)), w)
            else (Entry loc ft m rest recs' RemoteCheck, log_info (download_msg ft m local_path) w))
         else (Next loc rest recs', w))"
| "run_step c q (Entry loc ft m rest recs s) w =
     (case proc_step c ft m loc s w of (s', w1) \<Rightarrow> (entry_next loc ft m rest recs s', w1))"
| "run_step c q (Descr recs) w =
     (case read_file (descr_path (call_module q) (call_descr q)) w of
        (Inl e, w1) \<Rightarrow> (Finished (Inl e), w1)
      | (Inr text, w1) \<Rightarrow> (Finished (Inr (bunch_setattr ''DESCR'' text recs)), w1))"
| "run_step c q (Finished r) w = (Finished r, w)"

text \<open>One atomic step of a process that has not finished.\<close>

definition run_trans :: "cfg \<Rightarrow> fcall \<Rightarrow> rpc \<times> world \<Rightarrow> rpc \<times> world \<Rightarrow> bool" where
  "run_trans c q st st' \<longleftrightarrow> \<not> finished (fst st) \<and> run_step c q (fst st) (snd st) = st'"

text \<open>The call \<open>fetch_dataset\<close> makes with the arguments \<open>q\<close>.\<close>

definition call_fetch :: "cfg \<Rightarrow> fcall \<Rightarrow> bunch act" where
  "call_fetch c q = fetch_dataset c (call_name q) (call_descr q) (call_archive q) (call_module q)
     (call_home q) (call_dim q)"

text \<open>
  How many steps a process has left at most: the four checks of the two
  directories, per archive entry left one loop step and at most
  \<open>max_attempts + 5\<close> download steps, and the read of the description.
\<close>

fun run_rank :: "cfg \<Rightarrow> fcall \<Rightarrow> rpc \<Rightarrow> nat" where
  "run_rank c q HomeCheck = length (call_archive q) * (max_attempts c + 6) + 6"
| "run_rank c q (HomeMake h) = length (call_archive q) * (max_attempts c + 6) + 5"
| "run_rank c q (DirCheck loc) = length (call_archive q) * (max_attempts c + 6) + 4"
| "run_rank c q (DirMake loc) = length (call_archive q) * (max_attempts c + 6) + 3"
| "run_rank c q (Next loc xs recs) = length xs * (max_attempts c + 6) + 2"
| "run_rank c q (Entry loc ft m rest recs s) = length rest * (max_attempts c + 6) + pc_rank c s + 3"
| "run_rank c q (Descr recs) = 1"
| "run_rank c q (Finished r) = 0"

text \<open>
  Any number of processes, with the process ids \<open>pids\<close> and otherwise the
  same configuration, making the same call, each from \<open>HomeCheck\<close>: any
  interleaving of their atomic steps may happen.
\<close>

inductive reachN :: "cfg \<Rightarrow> fcall \<Rightarrow> nat list \<Rightarrow> world \<Rightarrow> rpc list \<times> world \<Rightarrow> bool"
  for c q pids w0 where
  start: "reachN c q pids w0 (map (\<lambda>_. HomeCheck) pids, w0)"
| step: "reachN c q pids w0 (ss, w) \<Longrightarrow> i < length ss \<Longrightarrow>
    run_trans (c\<lparr>pid := pids ! i\<rparr>) q (ss ! i, w) (s', w') \<Longrightarrow> reachN c q pids w0 (ss[i := s'], w')"

text \<open>Every target of the archive in the dataset directory \<open>D\<close> is absent or verified.\<close>

definition targets_ok :: "cfg \<Rightarrow> archive \<Rightarrow> path \<Rightarrow> world \<Rightarrow> bool" where
  "targets_ok c archive D w \<longleftrightarrow> (\<forall>m \<in> snd ` set archive. final_ok c m D w)"

text \<open>
  What a process knows at each point, for the data home \<open>h0\<close> and the
  dataset directory \<open>D\<close>: the directory strings it computed, that the
  entries it has left come from the archive, and what its download knows
  of its own temporary file.
\<close>

fun rpc_inv :: "cfg \<Rightarrow> fcall \<Rightarrow> string \<Rightarrow> path \<Rightarrow> rpc \<Rightarrow> world \<Rightarrow> bool" where
  "rpc_inv c q h0 D (HomeMake h) w = (h = h0)"
| "rpc_inv c q h0 D (DirCheck loc) w = (loc = posix_join h0 (call_name q))"
| "rpc_inv c q h0 D (DirMake loc) w = (loc = posix_join h0 (call_name q))"
| "rpc_inv c q h0 D (Next loc xs recs) w =
     (loc = posix_join h0 (call_name q) \<and> set xs \<subseteq> set (call_archive q))"
| "rpc_inv c q h0 D (Entry loc ft m rest recs s) w =
     (loc = posix_join h0 (call_name q) \<and> set rest \<subseteq> set (call_archive q) \<and>
      m \<in> snd ` set (call_archive q) \<and> pc_inv c m D s w)"
| "rpc_inv c q h0 D _ w = True"

section \<open>Lemmas\<close>

lemma run_trans_step [intro]:
  "\<not> finished s \<Longrightarrow> run_step c q s w = (s', w') \<Longrightarrow> run_trans c q (s, w) (s', w')"
  by (simp add: run_trans_def)

lemma run_trans_one:
  "\<not> finished s \<Longrightarrow> run_step c q s w = (s', w') \<Longrightarrow> (run_trans c q)\<^sup>*\<^sup>* (s, w) (s', w')"
  by (blast intro: r_into_rtranclp)

lemma run_trans_finished [simp]: "\<not> run_trans c q (Finished r, w) st"
  by (simp add: run_trans_def)

lemma run_trans_det: "run_trans c q st st1 \<Longrightarrow> run_trans c q st st2 \<Longrightarrow> st1 = st2"
  by (simp add: run_trans_def)

text \<open>A download of one entry, run by \<open>proc_step\<close>, is a run of \<open>Entry\<close> states.\<close>

lemma entry_runs:
  assumes "proc_run f c ft m loc s w = (s', w')" and "terminal s'" and "\<not> terminal s"
  shows "(run_trans c q)\<^sup>*\<^sup>* (Entry loc ft m rest recs s, w) (entry_next loc ft m rest recs s', w')"
  using assms
proof (induction f arbitrary: s w)
  case 0
  then show ?case by simp
next
  case (Suc f)
  obtain s1 w1 where st: "proc_step c ft m loc s w = (s1, w1)" by fastforce
  with Suc.prems have r: "proc_run f c ft m loc s1 w1 = (s', w')" by simp
  have one: "run_trans c q (Entry loc ft m rest recs s, w) (entry_next loc ft m rest recs s1, w1)"
    using st by (simp add: run_trans_def)
  show ?case
  proof (cases "terminal s1")
    case True
    with r have "s' = s1" "w' = w1" by (simp_all add: proc_run_terminal)
    with one show ?thesis by auto
  next
    case False
    then have "entry_next loc ft m rest recs s1 = Entry loc ft m rest recs s1" by (cases s1) simp_all
    from converse_rtranclp_into_rtranclp [OF one [unfolded this] Suc.IH [OF r Suc.prems(2) False]]
    show ?thesis .
  qed
qed

text \<open>The archive loop \<open>fetch_files\<close> is a run from the loop head.\<close>

lemma loop_runs:
  assumes "fetch_files c loc (call_dim q) archive recs w = (r, w')"
  shows "(run_trans c q)\<^sup>*\<^sup>* (Next loc archive recs, w)
    (case r of Inl e \<Rightarrow> Finished (Inl e) | Inr recs' \<Rightarrow> Descr recs', w')"
  using assms
proof (induction archive arbitrary: recs w)
  case Nil
  then show ?case by (auto intro: run_trans_one)
next
  case (Cons a rest)
  obtain ft m where a: "a = (ft, m)" by fastforce
  let ?lp = "local_path_of loc m"
  let ?recs' = "bunch_setitem ft ?lp recs"
  show ?case
  proof (cases "os_exists w ?lp")
    case True
    then have st: "run_trans c q (Next loc (a # rest) recs, w) (Next loc rest ?recs', w)"
      using a by (simp add: run_trans_def Let_def)
    from Cons.prems a True have "fetch_files c loc (call_dim q) rest ?recs' w = (r, w')"
      by (simp add: Let_def)
    from converse_rtranclp_into_rtranclp [OF st Cons.IH [OF this]] show ?thesis .
  next
    case nex: False
    show ?thesis
    proof (cases "call_dim q")
      case off: False
      with Cons.prems a nex have "r = Inl (MissingDataError ft ?lp)" "w' = w" by (simp_all add: Let_def)
      with off a nex show ?thesis by (auto intro!: run_trans_one simp: Let_def)
    next
      case on: True
      let ?wl = "w\<lparr>log := log w @ [download_msg ft m ?lp]\<rparr>"
      have st: "run_trans c q (Next loc (a # rest) recs, w) (Entry loc ft m rest ?recs' RemoteCheck, ?wl)"
        using a nex on by (simp add: run_trans_def Let_def)
      obtain r1 w1 where f: "fetch_remote c m loc False ?wl = (r1, w1)" by fastforce
      have pr: "proc_run (Suc (Suc (Suc (Suc (max_attempts c))))) c ft m loc RemoteCheck ?wl = to_pc (r1, w1)"
        using proc_run_remote [of c ft m loc ?wl] by (simp only: f)
      show ?thesis
      proof (cases r1)
        case (Inl e)
        with Cons.prems a nex on f have "r = Inl e" "w' = w1" by (simp_all add: Let_def)
        moreover from pr Inl have "proc_run (Suc (Suc (Suc (Suc (max_attempts c))))) c ft m loc RemoteCheck ?wl =
            (Failed e, w1)" by simp
        from entry_runs [OF this] have "(run_trans c q)\<^sup>*\<^sup>* (Entry loc ft m rest ?recs' RemoteCheck, ?wl)
            (Finished (Inl e), w1)" by simp
        from converse_rtranclp_into_rtranclp [OF st this] \<open>r = Inl e\<close> \<open>w' = w1\<close> show ?thesis by simp
      next
        case (Inr p)
        with Cons.prems a nex on f have rest: "fetch_files c loc (call_dim q) rest ?recs' w1 = (r, w')"
          by (simp add: Let_def)
        from pr Inr have "proc_run (Suc (Suc (Suc (Suc (max_attempts c))))) c ft m loc RemoteCheck ?wl =
            (Done, w1)" by simp
        from entry_runs [OF this] have "(run_trans c q)\<^sup>*\<^sup>* (Entry loc ft m rest ?recs' RemoteCheck, ?wl)
            (Next loc rest ?recs', w1)" by simp
        from converse_rtranclp_into_rtranclp [OF st rtranclp_trans [OF this Cons.IH [OF rest]]]
        show ?thesis .
      qed
    qed
  qed
qed

lemma dir_runs:
  assumes "ensure_dir loc w = (r, w1)"
  shows "(run_trans c q)\<^sup>*\<^sup>* (DirCheck loc, w)
    (case r of Inl e \<Rightarrow> Finished (Inl e) | Inr _ \<Rightarrow> Next loc (call_archive q) [], w1)"
proof (cases "os_exists w loc")
  case True
  with assms show ?thesis by (auto intro!: run_trans_one simp: ensure_dir_def)
next
  case False
  with assms have mk: "os_makedirs loc w = (r, w1)" by (simp add: ensure_dir_def)
  have "run_trans c q (DirCheck loc, w) (DirMake loc, w)" using False by (simp add: run_trans_def)
  moreover have "run_trans c q (DirMake loc, w)
      (case r of Inl e \<Rightarrow> Finished (Inl e) | Inr _ \<Rightarrow> Next loc (call_archive q) [], w1)"
    using mk by (cases r) (simp_all add: run_trans_def)
  ultimately show ?thesis by (rule converse_rtranclp_into_rtranclp [OF _ r_into_rtranclp])
qed

lemma home_runs:
  assumes "get_data_home (call_home q) w = (r, w1)"
  shows "(run_trans c q)\<^sup>*\<^sup>* (HomeCheck, w)
    (case r of Inl e \<Rightarrow> Finished (Inl e) | Inr h \<Rightarrow> DirCheck (posix_join h (call_name q)), w1)"
proof (cases "os_exists w (data_home_path w (call_home q))")
  case True
  with assms show ?thesis by (auto intro!: run_trans_one simp: get_data_home_def)
next
  case False
  let ?h = "data_home_path w (call_home q)"
  obtain r0 w0 where mk: "os_makedirs ?h w = (r0, w0)" by fastforce
  with assms False have r: "r = (case r0 of Inl e \<Rightarrow> Inl e | Inr _ \<Rightarrow> Inr ?h)" "w1 = w0"
    by (cases r0; simp add: get_data_home_absent est_bind_def est_return_def)+
  have "run_trans c q (HomeCheck, w) (HomeMake ?h, w)" using False by (simp add: run_trans_def)
  moreover have "run_trans c q (HomeMake ?h, w)
      (case r of Inl e \<Rightarrow> Finished (Inl e) | Inr h \<Rightarrow> DirCheck (posix_join h (call_name q)), w1)"
    using mk r by (cases r0) (simp_all add: run_trans_def os_makedirs_exist_ok_absent [OF False])
  ultimately show ?thesis by (rule converse_rtranclp_into_rtranclp [OF _ r_into_rtranclp])
qed

lemma descr_runs:
  assumes "read_file (descr_path (call_module q) (call_descr q)) w = (r, w1)"
  shows "run_trans c q (Descr recs, w)
    (case r of Inl e \<Rightarrow> Finished (Inl e) | Inr t \<Rightarrow> Finished (Inr (bunch_setattr ''DESCR'' t recs)), w1)"
  using assms by (cases r) (simp_all add: run_trans_def)

text \<open>A whole call of \<open>fetch_dataset\<close> is a run from \<open>HomeCheck\<close> to its result.\<close>

lemma fetch_runs:
  assumes "call_fetch c q w = (r, w')"
  shows "(run_trans c q)\<^sup>*\<^sup>* (HomeCheck, w) (Finished r, w')"
proof -
  let ?loc = "data_location_of w (call_home q) (call_name q)"
  let ?T = "(run_trans c q)\<^sup>*\<^sup>*"
  have home: "?T (HomeCheck, w) (DirCheck ?loc, w1)"
    if "get_data_home (call_home q) w = (Inr (data_home_path w (call_home q)), w1)" for w1
    using home_runs [OF that, of c] by (simp add: data_location_of_def)
  have pre: "?T (HomeCheck, w) (Next ?loc (call_archive q) [], w2)"
    if "get_data_home (call_home q) w = (Inr (data_home_path w (call_home q)), w1)"
      and "ensure_dir ?loc w1 = (Inr (), w2)" for w1 w2
    using rtranclp_trans [OF home [OF that(1)] dir_runs [OF that(2), of c q]] by simp
  have f: "fetch_dataset c (call_name q) (call_descr q) (call_archive q) (call_module q) (call_home q)
      (call_dim q) w = (r, w')"
    using assms by (simp only: call_fetch_def)
  from f show ?thesis
  proof (cases rule: fetch_dataset_phases)
    case (home_fail e)
    from home_runs [OF home_fail(1), of c] home_fail(2) show ?thesis by simp
  next
    case (dir_fail w1 e)
    from rtranclp_trans [OF home [OF dir_fail(1)] dir_runs [OF dir_fail(2), of c q]] dir_fail(3)
    show ?thesis by simp
  next
    case (files_fail w1 w2 e)
    from rtranclp_trans [OF pre [OF files_fail(1,2)] loop_runs [OF files_fail(3)]] files_fail(4)
    show ?thesis by simp
  next
    case (descr_fail w1 w2 recs e)
    from rtranclp_trans [OF pre [OF descr_fail(1,2)] loop_runs [OF descr_fail(3)]]
    have d1: "?T (HomeCheck, w) (Descr recs, w')" by simp
    have d2: "read_file (descr_path (call_module q) (call_descr q)) w' = (Inl e, w')"
      using descr_fail(4) by simp
    have d3: "run_trans c q (Descr recs, w') (Finished r, w')"
      using descr_runs [OF d2, of c recs] descr_fail(5) by simp
    from rtranclp.rtrancl_into_rtrancl [OF d1 d3] show ?thesis .
  next
    case (ok w1 w2 recs dtext)
    from rtranclp_trans [OF pre [OF ok(1,2)] loop_runs [OF ok(3)]]
    have d1: "?T (HomeCheck, w) (Descr recs, w')" by simp
    have d2: "read_file (descr_path (call_module q) (call_descr q)) w' = (Inr dtext, w')"
      using ok(4) by simp
    have d3: "run_trans c q (Descr recs, w') (Finished r, w')"
      using descr_runs [OF d2, of c recs] ok(5) by simp
    from rtranclp.rtrancl_into_rtrancl [OF d1 d3] show ?thesis .
  qed
qed

text \<open>A process is deterministic: from one state it reaches at most one final state.\<close>

lemma run_final_unique:
  assumes "(run_trans c q)\<^sup>*\<^sup>* st (Finished r1, w1)" and "(run_trans c q)\<^sup>*\<^sup>* st (Finished r2, w2)"
  shows "r1 = r2 \<and> w1 = w2"
  using assms
proof (induction rule: converse_rtranclp_induct)
  case base
  from base show ?case by (cases rule: converse_rtranclpE) auto
next
  case (step y z)
  note t = step.hyps(1) and ih = step.IH
  from step.prems show ?case
  proof (cases rule: converse_rtranclpE)
    case base
    with t show ?thesis by simp
  next
    case (step z')
    with t have "z' = z" using run_trans_det by blast
    with step ih show ?thesis by simp
  qed
qed

lemma entry_next_rank:
  "run_rank c q (entry_next loc ft m rest recs s') < length rest * (max_attempts c + 6) + pc_rank c s + 3"
  if "terminal s' \<or> pc_rank c s' < pc_rank c s"
  using that by (cases s') auto

lemma run_rank_step:
  assumes "\<not> finished s"
  shows "run_rank c q (fst (run_step c q s w)) < run_rank c q s"
proof (cases s)
  case (Next loc xs recs)
  then show ?thesis by (cases xs) (auto simp: Let_def)
next
  case (Entry loc ft m rest recs p)
  obtain p' w1 where st: "proc_step c ft m loc p w = (p', w1)" by fastforce
  have "terminal p' \<or> pc_rank c p' < pc_rank c p"
  proof (cases "terminal p")
    case True
    with st show ?thesis by (cases p) auto
  next
    case False
    from pc_rank_step [OF False, of c ft m loc w] st show ?thesis by simp
  qed
  from entry_next_rank [OF this, of q loc ft m rest recs] Entry st show ?thesis by simp
next
  case (HomeMake h)
  then show ?thesis by (simp split: prod.split sum.split)
next
  case (DirMake loc)
  then show ?thesis by (simp split: prod.split sum.split)
next
  case (Descr recs)
  then show ?thesis by (simp split: prod.split sum.split)
qed (use assms in \<open>simp_all add: Let_def\<close>)

text \<open>
  C17. Run alone, the small-step process refines the big-step model and
  nothing else: it reaches a final state with a result and a world exactly
  when \<open>fetch_dataset\<close> returns that result in that world.
\<close>

theorem run_refines_fetch:
  "(run_trans c q)\<^sup>*\<^sup>* (HomeCheck, w) (Finished r, w') \<longleftrightarrow> call_fetch c q w = (r, w')"
proof
  assume p: "(run_trans c q)\<^sup>*\<^sup>* (HomeCheck, w) (Finished r, w')"
  obtain r0 w0 where f: "call_fetch c q w = (r0, w0)" by fastforce
  from run_final_unique [OF p fetch_runs [OF f]] f show "call_fetch c q w = (r, w')" by simp
next
  assume "call_fetch c q w = (r, w')"
  from fetch_runs [OF this] show "(run_trans c q)\<^sup>*\<^sup>* (HomeCheck, w) (Finished r, w')" .
qed

text \<open>
  C18. No process runs forever: the step relation of a process is well
  founded, whatever the world, the host and the arguments of the call, since
  every step decreases \<open>run_rank\<close>.
\<close>

theorem run_trans_wf: "wf {(st', st). run_trans c q st st'}"
proof (rule wf_subset [OF wf_measure [of "\<lambda>st. run_rank c q (fst st)"]])
  show "{(st', st). run_trans c q st st'} \<subseteq> measure (\<lambda>st. run_rank c q (fst st))"
  proof clarify
    fix s w s' w'
    assume "run_trans c q (s, w) (s', w')"
    then have "\<not> finished s" and "run_step c q s w = (s', w')" by (simp_all add: run_trans_def)
    from run_rank_step [OF this(1), of c q w] this(2)
    show "((s', w'), s, w) \<in> measure (\<lambda>st. run_rank c q (fst st))" by simp
  qed
qed

lemma targets_ok_pid [simp]: "targets_ok (c\<lparr>pid := p\<rparr>) a D w = targets_ok c a D w"
  by (simp add: targets_ok_def)

lemma targets_ok_log [simp]: "targets_ok c a D (w\<lparr>log := l\<rparr>) = targets_ok c a D w"
  by (simp add: targets_ok_def)

lemma targets_ok_frame:
  assumes "targets_ok c a D w" and "\<And>m. m \<in> snd ` set a \<Longrightarrow> fs w' (final_path m D) = fs w (final_path m D)"
  shows "targets_ok c a D w'"
  using assms final_ok_frame unfolding targets_ok_def by blast

lemma rpc_inv_frame:
  assumes "\<forall>m. fs w' (tmp_path c m D) = fs w (tmp_path c m D)"
  shows "rpc_inv c q h0 D s w' = rpc_inv c q h0 D s w"
  using pc_inv_frame [OF spec [OF assms]] by (cases s) simp_all

lemma filename_inj:
  assumes "distinct (map (filename \<circ> snd) a)" and "m \<in> snd ` set a" and "m' \<in> snd ` set a"
    and "filename m = filename m'"
  shows "m = m'"
proof -
  from assms(2,3) obtain x y where x: "x \<in> set a" "m = snd x" and y: "y \<in> set a" "m' = snd y" by blast
  from assms(1) have "inj_on (filename \<circ> snd) (set a)" by (simp add: distinct_map)
  then have "x = y" using x(1) y(1) assms(4) x(2) y(2) by (simp add: inj_on_def)
  with x y show ?thesis by simp
qed

lemma final_path_ne [simp]: "final_path m' D \<noteq> tmp_path c m D"
  by (simp add: final_path_def tmp_path_def)

lemma prefix_snoc_D: "prefix p hp \<Longrightarrow> prefix p (hp @ [x])"
  by (auto simp: prefix_def)

text \<open>
  One step of a process keeps the working directory and the environment,
  keeps every target of the archive absent or verified, establishes what its
  next point knows, and changes the file system only at temporary files of
  its own, at targets of the archive, and at directories on the way to the
  dataset directory.
\<close>

lemma run_step_inv:
  assumes st: "run_step c q s w = (s', w')"
    and h0: "data_home_path w (call_home q) = h0" and hp: "resolve (cwd w) h0 = Some hp"
    and D: "D = hp @ [Name (call_name q)]" and sn: "simple_name (call_name q)"
    and df: "distinct (map (filename \<circ> snd) (call_archive q))"
    and inv: "rpc_inv c q h0 D s w" and ok: "targets_ok c (call_archive q) D w"
  shows "cwd w' = cwd w \<and> environ w' = environ w \<and> targets_ok c (call_archive q) D w' \<and>
    rpc_inv c q h0 D s' w' \<and>
    (\<forall>p. fs w' p \<noteq> fs w p \<longrightarrow> (\<exists>m. p = tmp_path c m D) \<or> prefix p D \<or>
       (\<exists>m \<in> snd ` set (call_archive q). p = final_path m D))"
proof -
  let ?A = "call_archive q"
  have DD: "resolve (cwd w) (posix_join h0 (call_name q)) = Some D"
    using resolve_data_location [of w "call_home q" hp "call_name q"] h0 hp sn D
    by (simp add: data_location_of_def)
  have mk: "cwd w1 = cwd w \<and> environ w1 = environ w \<and> targets_ok c ?A D w1 \<and>
      (\<forall>p. fs w1 p \<noteq> fs w p \<longrightarrow> prefix p D)"
    if e: "fs_only w w1 \<and> (\<forall>q. fs w1 q \<noteq> fs w q \<longrightarrow> fs w q = None \<and> fs w1 q = Some Dir \<and>
        (\<exists>p. resolve (cwd w) l = Some p \<and> prefix q p))"
      and "\<And>p'. resolve (cwd w) l = Some p' \<Longrightarrow> prefix p' D" for l w1
  proof -
    have ch: "prefix p D" if "fs w1 p \<noteq> fs w p" for p
      using e that \<open>\<And>p'. resolve (cwd w) l = Some p' \<Longrightarrow> prefix p' D\<close> prefix_order.trans by blast
    have "targets_ok c ?A D w1"
    proof (rule targets_ok_frame [OF ok])
      fix m show "fs w1 (final_path m D) = fs w (final_path m D)" using ch final_not_prefix(1) by blast
    qed
    with e ch show ?thesis by (simp add: fs_only_def)
  qed
  show ?thesis
  proof (cases s)
    case HomeCheck
    with st h0 show ?thesis using ok by (auto simp: Let_def split: if_splits)
  next
    case (HomeMake h)
    with inv have h: "h = h0" by simp
    obtain r w1 where m: "os_makedirs_exist_ok h0 w = (r, w1)" by fastforce
    have "prefix p' D" if "resolve (cwd w) h0 = Some p'" for p'
      using that hp D by (simp add: prefix_snoc_D)
    from mk [OF os_makedirs_exist_ok_effect [OF m] this] st HomeMake h m show ?thesis by (cases r) auto
  next
    case (DirCheck l)
    with st inv ok show ?thesis by (auto split: if_splits)
  next
    case (DirMake l)
    with inv have l: "l = posix_join h0 (call_name q)" by simp
    obtain r w1 where m: "os_makedirs l w = (r, w1)" by fastforce
    have "prefix p' D" if "resolve (cwd w) l = Some p'" for p'
      using that DD l by simp
    moreover have "fs_only w w1 \<and> (\<forall>q. fs w1 q \<noteq> fs w q \<longrightarrow> fs w q = None \<and> fs w1 q = Some Dir \<and>
        (\<exists>p. resolve (cwd w) l = Some p \<and> prefix q p))"
      using os_makedirs_effect [OF m] by blast
    ultimately have "cwd w1 = cwd w \<and> environ w1 = environ w \<and> targets_ok c ?A D w1 \<and>
        (\<forall>p. fs w1 p \<noteq> fs w p \<longrightarrow> prefix p D)" using mk by blast
    with st DirMake l m show ?thesis by (cases r) auto
  next
    case (Next l xs recs)
    show ?thesis
    proof (cases xs)
      case Nil
      with st Next inv ok show ?thesis by auto
    next
      case (Cons a rest)
      obtain ft m where a: "a = (ft, m)" by fastforce
      with Next Cons inv have mA: "m \<in> snd ` set ?A" and rA: "set rest \<subseteq> set ?A" by force+
      from st Next Cons a inv ok mA rA show ?thesis
        by (simp add: Let_def split: if_splits; elim conjE; hypsubst; simp)
    qed
  next
    case (Entry l ft m rest recs p)
    with inv have l: "l = posix_join h0 (call_name q)" and rest: "set rest \<subseteq> set ?A"
      and mA: "m \<in> snd ` set ?A" and pinv: "pc_inv c m D p w" by simp_all
    obtain p' w1 where ps: "proc_step c ft m l p w = (p', w1)" by fastforce
    with st Entry have s': "s' = entry_next l ft m rest recs p'" and w': "w' = w1" by simp_all
    have okm: "final_ok c m D w" using ok mA unfolding targets_ok_def by blast
    from proc_step_inv [OF ps _ pinv okm] DD l
    have i: "cwd w1 = cwd w" "final_ok c m D w1" "pc_inv c m D p' w1"
      and fr: "\<forall>q'. fs w1 q' \<noteq> fs w q' \<longrightarrow> q' = tmp_path c m D \<or> q' = final_path m D \<or> prefix q' D"
      by simp_all
    have "targets_ok c ?A D w1"
      unfolding targets_ok_def
    proof
      fix m' assume m': "m' \<in> snd ` set ?A"
      show "final_ok c m' D w1"
      proof (cases "m' = m")
        case True
        with i show ?thesis by simp
      next
        case False
        then have "filename m' \<noteq> filename m" using filename_inj [OF df m' mA] by blast
        then have "final_path m' D \<noteq> final_path m D" by (simp add: final_path_def)
        with fr have "fs w1 (final_path m' D) = fs w (final_path m' D)" by auto
        moreover have "final_ok c m' D w" using ok m' unfolding targets_ok_def by blast
        ultimately show ?thesis by (rule final_ok_frame)
      qed
    qed
    moreover have "rpc_inv c q h0 D s' w'"
      using s' w' i(3) l rest mA by (cases p') simp_all
    moreover have "environ w1 = environ w" by (rule proc_step_environ [OF ps])
    ultimately show ?thesis using i(1) fr w' mA by blast
  next
    case (Descr recs)
    obtain r w1 where rd: "read_file (descr_path (call_module q) (call_descr q)) w = (r, w1)" by fastforce
    with read_file_world [OF rd] st Descr ok show ?thesis by (cases r) auto
  next
    case (Finished r)
    with st ok show ?thesis by auto
  qed
qed

lemma other_tmp_unchanged:
  assumes "\<forall>p. fs w' p \<noteq> fs w p \<longrightarrow> (\<exists>m. p = tmp_path c m D) \<or> prefix p D \<or>
       (\<exists>m \<in> M. p = final_path m D)"
    and "pid c' \<noteq> pid c"
  shows "\<forall>m. fs w' (tmp_path c' m D) = fs w (tmp_path c' m D)"
proof (rule allI, rule ccontr)
  fix m assume "fs w' (tmp_path c' m D) \<noteq> fs w (tmp_path c' m D)"
  with assms(1) have "(\<exists>m'. tmp_path c' m D = tmp_path c m' D) \<or> prefix (tmp_path c' m D) D \<or>
      (\<exists>m' \<in> M. tmp_path c' m D = final_path m' D)" by blast
  with assms(2) show False by (auto simp: tmp_path_def final_path_def)
qed

text \<open>
  The invariant of every interleaving of any number of processes with
  distinct process ids: the working directory and the environment are the
  initial ones, every target is absent or verified, and every process knows
  what \<open>rpc_inv\<close> says.
\<close>

lemma reachN_inv:
  assumes "reachN c q pids w0 st" and dp: "distinct pids" and sn: "simple_name (call_name q)"
    and hp: "resolve (cwd w0) (data_home_path w0 (call_home q)) = Some hp"
    and df: "distinct (map (filename \<circ> snd) (call_archive q))"
    and ok0: "targets_ok c (call_archive q) (hp @ [Name (call_name q)]) w0"
  shows "cwd (snd st) = cwd w0 \<and> environ (snd st) = environ w0 \<and>
    targets_ok c (call_archive q) (hp @ [Name (call_name q)]) (snd st) \<and> length (fst st) = length pids \<and>
    (\<forall>i < length pids. rpc_inv (c\<lparr>pid := pids ! i\<rparr>) q (data_home_path w0 (call_home q))
       (hp @ [Name (call_name q)]) (fst st ! i) (snd st))"
  using assms(1)
proof (induction rule: reachN.induct)
  case start
  show ?case using ok0 by simp
next
  case (step ss w i s' w')
  let ?h0 = "data_home_path w0 (call_home q)" and ?D = "hp @ [Name (call_name q)]"
  let ?ci = "c\<lparr>pid := pids ! i\<rparr>"
  from step.IH have cw: "cwd w = cwd w0" and env: "environ w = environ w0"
    and ok: "targets_ok c (call_archive q) ?D w" and len: "length ss = length pids"
    and invs: "\<And>j. j < length pids \<Longrightarrow> rpc_inv (c\<lparr>pid := pids ! j\<rparr>) q ?h0 ?D (ss ! j) w" by simp_all
  from step.hyps(3) have st: "run_step ?ci q (ss ! i) w = (s', w')" by (simp add: run_trans_def)
  have h0: "data_home_path w (call_home q) = ?h0" using data_home_path_environ [OF env] .
  have hpw: "resolve (cwd w) ?h0 = Some hp" using hp cw by simp
  have i: "i < length pids" using step.hyps(2) len by simp
  from run_step_inv [OF st h0 hpw refl sn df invs [OF i]] ok
  have cw': "cwd w' = cwd w" and env': "environ w' = environ w"
    and ok': "targets_ok c (call_archive q) ?D w'" and inv': "rpc_inv ?ci q ?h0 ?D s' w'"
    and fr: "\<forall>p. fs w' p \<noteq> fs w p \<longrightarrow> (\<exists>m. p = tmp_path ?ci m ?D) \<or> prefix p ?D \<or>
       (\<exists>m \<in> snd ` set (call_archive q). p = final_path m ?D)" by simp_all
  have "rpc_inv (c\<lparr>pid := pids ! j\<rparr>) q ?h0 ?D (ss[i := s'] ! j) w'" if j: "j < length pids" for j
  proof (cases "j = i")
    case True
    with inv' len j show ?thesis by simp
  next
    case False
    then have "pid (c\<lparr>pid := pids ! j\<rparr>) \<noteq> pid ?ci" using dp i j by (simp add: nth_eq_iff_index_eq)
    from rpc_inv_frame [OF other_tmp_unchanged [OF fr this]] invs [OF j] False
    show ?thesis by simp
  qed
  with cw' env' ok' cw env len show ?case by simp
qed

lemma reachN_eval:
  assumes "reachN c q pids w0 (ss, w)" and "i < length ss" and "c' = c\<lparr>pid := pids ! i\<rparr>"
    and "s = ss ! i" and "\<not> finished s" and "fst (run_step c' q s w) = s'" and "ss' = ss[i := s']"
  shows "reachN c q pids w0 (ss', snd (run_step c' q s w))"
proof -
  have "run_trans (c\<lparr>pid := pids ! i\<rparr>) q (ss ! i, w) (s', snd (run_step c' q s w))"
    using assms(3-6) by (simp add: run_trans_def prod_eq_iff)
  from reachN.step [OF assms(1,2) this] assms(7) show ?thesis by simp
qed

text \<open>
  C19. Atomic placement protects any number of concurrent fetchers: in every
  interleaving of whole fetcher calls by processes with distinct process ids,
  from the data-home check to the description, every target of the archive
  in the dataset directory is at all times absent or a file whose digest is
  its checksum, provided it was so at the start and the archive's file names
  are distinct.
\<close>

theorem reachN_targets_verified:
  assumes "reachN c q pids w0 (ss, w)" and "distinct pids" and "simple_name (call_name q)"
    and "resolve (cwd w0) (data_home_path w0 (call_home q)) = Some hp"
    and "distinct (map (filename \<circ> snd) (call_archive q))"
    and "targets_ok c (call_archive q) (hp @ [Name (call_name q)]) w0"
  shows "targets_ok c (call_archive q) (hp @ [Name (call_name q)]) w"
  using reachN_inv [OF assms] by simp

end
