(* ===== verification/Spec2Isabelle.thy ===== *)
theory Spec2Isabelle
  imports AdkEquilibrium IfabpWater FetchRun
begin

text \<open>
  \<^bold>\<open>A verification library for MDAnalysisData's dataset fetchers.\<close>

  \<^emph>\<open>The program.\<close> The sources are two dataset modules,
  \<^verbatim>\<open>src/MDAnalysisData/adk_equilibrium.py\<close> and
  \<^verbatim>\<open>src/MDAnalysisData/ifabp_water.py\<close>. Each declares the constants
  \<^verbatim>\<open>NAME\<close>, \<^verbatim>\<open>DESCRIPTION\<close> and \<^verbatim>\<open>ARCHIVE\<close> (role name to
  \<^verbatim>\<open>RemoteFileMetadata(filename, url, checksum)\<close>) and a fetcher
  \<^verbatim>\<open>fetch_adk_equilibrium\<close> / \<^verbatim>\<open>fetch_ifabp_water\<close>. The fetcher locates the
  cache (\<^verbatim>\<open>get_data_home\<close>), creates the dataset directory, walks the
  archive recording each local path in a \<^verbatim>\<open>Bunch\<close>, downloads each missing
  file with \<^verbatim>\<open>_fetch_remote\<close> (or raises \<^verbatim>\<open>IOError\<close> when
  \<^verbatim>\<open>download_if_missing\<close> is false), and reads the description text. The
  helpers \<^verbatim>\<open>get_data_home\<close>, \<^verbatim>\<open>_fetch_remote\<close>,
  \<^verbatim>\<open>RemoteFileMetadata\<close> and \<^verbatim>\<open>Bunch\<close> live in \<^verbatim>\<open>MDAnalysisData.base\<close>,
  which is not among the sources; they are modelled from the spec.

  \<^emph>\<open>The theories.\<close>
  \<^item> \<open>Prelude\<close>: the world (file system, working directory, environment,
    content host, request log, clock, and the messages logged through
    \<^verbatim>\<open>logger.info\<close>, \<open>log_info\<close>) as a record, the error datatype with one
    constructor per exception the program raises, and the exception-state
    combinators \<open>est_return\<close>, \<open>est_raise\<close>, \<open>est_bind\<close> that thread it.
  \<^item> \<open>Paths\<close>: \<^verbatim>\<open>os.path.join\<close> (\<open>posix_join\<close>),
    \<^verbatim>\<open>os.path.expanduser\<close> (\<open>expanduser\<close>), and the kernel's resolution of a
    path string against the working directory (\<open>resolve\<close>).
  \<^item> \<open>FileSystem\<close>: \<^verbatim>\<open>os.path.exists\<close>, \<^verbatim>\<open>os.mkdir\<close>,
    \<^verbatim>\<open>os.makedirs\<close>, writing, removing and renaming files, reading a file;
    the tree invariant \<open>wf_fs\<close> and its preservation by every operation.
  \<^item> \<open>Downloader\<close>: \<^verbatim>\<open>_fetch_remote\<close> (\<open>fetch_remote\<close>): bounded retries
    (\<open>fetch_attempts\<close>) with exponential back-off, checksum verification and
    atomic placement through a temporary file (\<open>store_verified\<close>).
  \<^item> \<open>Bunch\<close>: the result dictionary with attribute access.
  \<^item> \<open>Locator\<close>: \<^verbatim>\<open>get_data_home\<close> (override, \<^verbatim>\<open>MDANALYSIS_DATA\<close>,
    default \<^verbatim>\<open>~/MDAnalysis_data\<close>; created when missing, idempotently as
    spec 4.1 requires, i.e. \<^verbatim>\<open>makedirs(..., exist_ok=True)\<close>:
    \<open>os_makedirs_exist_ok\<close>).
  \<^item> \<open>Fetcher\<close>: the body the two fetchers share, \<open>fetch_dataset\<close>, with the
    archive loop \<open>fetch_files\<close>, the directory step \<open>ensure_dir\<close>, and the
    path computations \<open>data_location_of\<close>, \<open>local_path_of\<close>, \<open>descr_path\<close>;
    \<open>download_msg\<close> is the message logged before each download (lines
    107--108).
  \<^item> \<open>AdkEquilibrium\<close>, \<open>IfabpWater\<close>: the module constants and fetchers,
    with the example worlds the witnesses below evaluate by \<open>code_simp\<close>.
  \<^item> \<open>Interleaving\<close>: the work for one archive entry (lines 95--109 and
    \<^verbatim>\<open>_fetch_remote\<close>) cut into atomic steps, \<open>proc_step\<close>; a process run
    alone (\<open>proc_run\<close>, with fuel \<open>max_attempts + 7\<close>); and the
    interleavings of two processes as the inductive relation \<open>reach2\<close>.
  \<^item> \<open>FetchRun\<close>: a whole fetcher call (lines 92--116, with
    \<^verbatim>\<open>get_data_home\<close>) cut into atomic steps, \<open>run_step\<close>, from
    the data-home check (\<open>HomeCheck\<close>) through the directory step, the
    archive loop (\<open>Next\<close>, one step per existence check) and the downloads
    (\<open>Entry\<close>, which runs \<open>proc_step\<close>) to the description read
    (\<open>Descr\<close>) and the result (\<open>Finished\<close>); a process alone is the
    reflexive transitive closure of \<open>run_trans\<close>, and any number of
    processes with their own process ids interleave by the inductive
    relation \<open>reachN\<close>.

  \<^emph>\<open>What is shown.\<close> C1--C4 and C7--C9 are about a whole fetcher,
  for any archive: the footprint of a run on the world (C1), idempotence of a
  successful run (C2), no network access offline (C3), the shape of the
  returned bundle (C4), the cached fast path, which accepts a cached file
  whatever it contains (C7), and bounds on requests (C8) and time (C9).
  C5, C6 and C14 in \<open>Fetcher\<close> and below describe one download of the
  archive loop: a corrupted body (C5, \<open>IntegrityError\<close> and no file left),
  a download after transient failures (C6), and \<open>TransientFetchError\<close>
  after \<open>max_attempts\<close> failed requests (C14). C10 is the equivalence of the
  offline loop with a reference that looks for the first missing file. C11
  is the offline error path of a whole fetch: on a fresh cache it raises
  \<^verbatim>\<open>IOError\<close> for the first archive entry and leaves the new, empty
  dataset directory behind, because the directory is made before the loop.
  C12 in \<open>Interleaving\<close> shows that the small-step process for one entry
  refines the big-step model; C13 exhibits an interleaving of two processes
  in which one \<^verbatim>\<open>makedirs(data_location)\<close> fails with
  \<^verbatim>\<open>FileExistsError\<close> because the other created the directory after the
  first one's existence check. C15 is the liveness of a whole fetch: with an
  existing data home, a well-formed archive and a host that serves each file
  within \<open>max_attempts\<close> requests (\<open>serves\<close>), the fetch returns the
  complete bundle. C16 describes the log: a fetch only appends
  \<^verbatim>\<open>Downloading role: url -> path...\<close> lines, at most one per archive
  entry and in archive order, and none offline. C17--C19 in \<open>FetchRun\<close>
  are about whole calls as processes: the small-step process run alone
  reaches exactly the results and worlds of \<open>fetch_dataset\<close> (C17, both
  directions, by determinism of the step); its step relation is well
  founded (C18); and in every interleaving of any number of processes with
  distinct process ids every target of the archive stays absent or a file
  with the right digest (C19). C20 sharpens C8: the requests come in
  archive order, a run of at most \<open>max_attempts\<close> retries per entry
  (\<open>request_trace\<close>), none for a cached file, for a prefix of the archive
  that ends at the entry that fails and covers the whole archive when the
  fetch succeeds.

  The library lemmas that carry these proofs include the preservation of
  the tree invariant \<open>wf_fs\<close> by every operation and by a whole fetch
  (\<open>fetch_dataset_wf\<close>), which discharges the well-formedness hypothesis of
  C11 in every world that fetches reach from a well-formed one.

  \<^emph>\<open>Bounds.\<close> Downloads are bounded by the configuration
  (\<open>cfg\<close>): at most \<open>max_attempts\<close> requests per file, \<open>timeout\<close> seconds for
  a request that gets no answer, and \<open>2 ^ k\<close> seconds of back-off after the
  \<open>k\<close>-th failure. The loop is structural recursion on the remaining
  attempts, so it terminates without fuel. The \<open>adk\<close> examples use three
  attempts and a thirty-second timeout, the \<open>ifabp\<close> examples two attempts
  and ten seconds. \<open>proc_run\<close> is given \<open>max_attempts + 7\<close> steps: the
  four checks, every attempt and the three steps that store a body, which is
  why C12 holds with exactly that fuel. A whole call needs no fuel: its
  step relation is well founded (C18), with the rank
  \<open>len(ARCHIVE) * (max_attempts + 6) + 6\<close> of \<open>HomeCheck\<close>
  (\<open>run_rank\<close>) decreasing at every step.

  \<^emph>\<open>Not modelled.\<close> Of logging, only the message text is kept: the
  level, the logger name and the handlers that format and emit a record are
  outside the program. Symbolic links, file permissions and the \<^verbatim>\<open>~user\<close> form of
  \<^verbatim>\<open>expanduser\<close> are not modelled. Text decoding
  (\<^verbatim>\<open>codecs.open(..., encoding="utf-8")\<close>) is taken as the identity on the
  stored content. The hash function is a parameter of the configuration.
  Processes are interleaved at the granularity of the calls the program
  makes to the operating system and the host (an existence check, a
  \<^verbatim>\<open>makedirs\<close>, one request, a write, a rename): each such call is
  atomic, as the kernel makes it; a \<^verbatim>\<open>makedirs\<close> of several missing
  directories is one step. Threads within one process, signals and
  cancellation are not modelled.
\<close>

text \<open>The call \<^verbatim>\<open>fetch_adk_equilibrium()\<close> of the examples, as arguments of \<open>run_step\<close>.\<close>

definition adk_call :: fcall where
  "adk_call = \<lparr>call_name = adk_NAME, call_descr = adk_DESCRIPTION, call_archive = adk_ARCHIVE,
     call_module = ''/pkg'', call_home = None, call_dim = True\<rparr>"

section \<open>Properties of the fetchers\<close>

text \<open>
  C1. A run of a fetcher, whatever its outcome, keeps the working directory
  and the environment (what else it changes, the request log, the host's
  answers, the clock and the message log, is what downloads change, see C8,
  C9 and C16); in the file system no visible entry disappears, and every
  entry it changes is either a
  newly created directory on the way to the dataset directory, or the target
  of an archive entry there holding content whose digest is that entry's
  checksum, or a temporary file that is gone afterwards.
\<close>

theorem fetch_dataset_footprint:
  assumes run: "fetch_dataset c name descr archive mp dh dim w = (r, w')"
    and vc: "visible_path (cwd w)" and nm: "simple_name name"
    and loc: "resolve (cwd w) (data_location_of w dh name) = Some d"
  shows "cwd w' = cwd w \<and> environ w' = environ w \<and>
    (\<forall>p. visible_path p \<longrightarrow> fs w p \<noteq> None \<longrightarrow> fs w' p \<noteq> None) \<and>
    (\<forall>p. fs w' p \<noteq> fs w p \<longrightarrow>
       (fs w p = None \<and> fs w' p = Some Dir \<and> prefix p d) \<or>
       (\<exists>m \<in> snd ` set archive. p = final_path m d \<and>
          (\<exists>b. fs w' p = Some (File b) \<and> sha256 c b = checksum m)) \<or>
       (\<not> visible_path p \<and> fs w' p = None))"
proof -
  have vd: "visible_path d" using resolve_visible [OF vc loc] .
  have dirs: "dirs_added d w w2"
    if "get_data_home dh w = (r1, w1)" and "ensure_dir (data_location_of w dh name) w1 = (r2, w2)" for r1 w1 r2 w2
    using setup_dirs_added [OF that nm loc] .
  have files: "fetch_footprint c archive d w2 w3"
    if "dirs_added d w w2" and "fetch_files c (data_location_of w dh name) dim archive [] w2 = (r3, w3)"
    for w2 r3 w3
  proof -
    from that(1) have "cwd w2 = cwd w" by (simp add: dirs_added_def fs_only_def)
    with loc have "resolve (cwd w2) (data_location_of w dh name) = Some d" by simp
    from fetch_files_footprint [OF that(2) this vd] show ?thesis .
  qed
  from run obtain w2 where "dirs_added d w w2" and "fetch_footprint c archive d w2 w'"
  proof (cases rule: fetch_dataset_phases)
    case (home_fail e)
    then have "dirs_added d w w'" using get_data_home_dirs_added [OF _ nm loc] by blast
    then show ?thesis using that by simp
  next
    case (dir_fail w1 e)
    then show ?thesis using that dirs by (metis fetch_footprint_refl)
  next
    case (files_fail w1 w2 e)
    then show ?thesis using that dirs files by blast
  next
    case (descr_fail w1 w2 recs e)
    then show ?thesis using that dirs files by blast
  next
    case (ok w1 w2 recs dtext)
    then show ?thesis using that dirs files by blast
  qed
  from dirs_then_files [OF this vd] show ?thesis .
qed

theorem fetch_dataset_footprint_witness:
  "cwd (snd (fetch_dataset adk_demo_cfg adk_NAME adk_DESCRIPTION adk_ARCHIVE ''/pkg'' None True adk_demo_world)) = cwd adk_demo_world \<and>
   environ (snd (fetch_dataset adk_demo_cfg adk_NAME adk_DESCRIPTION adk_ARCHIVE ''/pkg'' None True adk_demo_world)) = environ adk_demo_world"
  using fetch_dataset_footprint [OF prod.collapse [symmetric] adk_demo_cwd_visible adk_simple_name
      adk_demo_location]
  by blast

text \<open>
  C2. A second call after a successful one returns the same bundle and
  leaves the world as it is: no request, no change to the file system.
\<close>

theorem fetch_dataset_idempotent:
  assumes run: "fetch_dataset c name descr archive mp dh dim w = (Inr b, w')"
    and "visible_path (cwd w)" and "simple_name name" and "wf_archive archive"
  shows "fetch_dataset c name descr archive mp dh dim w' = (Inr b, w')"
proof -
  from fetch_dataset_ok_facts [OF assms] obtain dtext where
    en: "environ w' = environ w"
    and home: "os_exists w' (data_home_path w dh)" and loc: "os_exists w' (data_location_of w dh name)"
    and files: "\<forall>(ft, m) \<in> set archive. os_exists w' (posix_join (data_location_of w dh name) (filename m))"
    and descr: "read_file (posix_join (posix_join mp ''descr'') descr) w' = (Inr dtext, w')"
    and b: "b = bunch_setattr ''DESCR'' dtext (archive_records (data_location_of w dh name) archive [])"
    by blast
  have "fetch_dataset c name descr archive mp dh dim w' =
      (Inr (bunch_setattr ''DESCR'' dtext (archive_records (data_location_of w' dh name) archive [])), w')"
    using home loc files descr
    by (intro fetch_dataset_from_cache) (simp_all add: data_home_path_environ [OF en] data_location_of_environ [OF en])
  with b show ?thesis by (simp add: data_location_of_environ [OF en])
qed

theorem fetch_dataset_idempotent_witness:
  "fetch_dataset adk_demo_cfg adk_NAME adk_DESCRIPTION adk_ARCHIVE ''/pkg'' None True (snd (fetch_dataset adk_demo_cfg adk_NAME adk_DESCRIPTION adk_ARCHIVE ''/pkg'' None True adk_demo_world)) =
     (Inr adk_demo_bundle, snd (fetch_dataset adk_demo_cfg adk_NAME adk_DESCRIPTION adk_ARCHIVE ''/pkg'' None True adk_demo_world))"
  using fetch_dataset_idempotent [OF adk_demo_run adk_demo_cwd_visible adk_simple_name adk_wf_archive] .

text \<open>
  C3. With \<^verbatim>\<open>download_if_missing=False\<close> a fetcher makes no request to
  the content host, whatever the state of the cache.
\<close>

theorem fetch_dataset_offline_no_network:
  "requests (snd (fetch_dataset c name descr archive mp dh False w)) = requests w \<and>
   net (snd (fetch_dataset c name descr archive mp dh False w)) = net w"
proof -
  obtain r w' where run: "fetch_dataset c name descr archive mp dh False w = (r, w')" by fastforce
  have "fs_only w w'"
    using run
  proof (cases rule: fetch_dataset_phases)
    case (home_fail e)
    then show ?thesis using get_data_home_effect by blast
  next
    case (dir_fail w1 e)
    then show ?thesis using get_data_home_effect ensure_dir_fs_only fs_only_trans by blast
  next
    case (files_fail w1 w2 e)
    then have "w' = w2" using fetch_files_offline_world by blast
    with files_fail show ?thesis using get_data_home_effect ensure_dir_fs_only fs_only_trans by blast
  next
    case (descr_fail w1 w2 recs e)
    then have "w' = w2" using fetch_files_offline_world by blast
    with descr_fail show ?thesis using get_data_home_effect ensure_dir_fs_only fs_only_trans by blast
  next
    case (ok w1 w2 recs dtext)
    then have "w' = w2" using fetch_files_offline_world by blast
    with ok show ?thesis using get_data_home_effect ensure_dir_fs_only fs_only_trans by blast
  qed
  with run show ?thesis by (simp add: fs_only_def)
qed

text \<open>
  C11. Without \<^verbatim>\<open>download_if_missing\<close>, a dataset whose directory does
  not exist yet under an existing data home fails at its first
  \<^verbatim>\<open>ARCHIVE\<close> entry with \<^verbatim>\<open>MissingDataError\<close> naming that entry's
  local path, and the one trace it leaves is the new, empty dataset
  directory: the directory is made before any file is checked.
\<close>

theorem fetch_dataset_offline_leaves_dir:
  assumes hp: "resolve (cwd w) (data_home_path w dh) = Some hp" and hd: "fs w hp = Some Dir"
    and nm: "simple_name name" and absent: "fs w (hp @ [Name name]) = None"
    and wf: "wf_fs (fs w)" and ne: "archive \<noteq> []" and sm: "simple_name (filename (snd (hd archive)))"
  shows "fetch_dataset c name descr archive mp dh False w =
    (Inl (MissingDataError (fst (hd archive)) (local_path_of (data_location_of w dh name) (snd (hd archive)))),
     w\<lparr>fs := (fs w)(hp @ [Name name] \<mapsto> Dir)\<rparr>)"
proof -
  obtain ft m rest where a: "archive = (ft, m) # rest" using ne by (cases archive) auto
  let ?D = "hp @ [Name name]" and ?loc = "data_location_of w dh name"
  let ?w1 = "w\<lparr>fs := (fs w)(?D \<mapsto> Dir)\<rparr>"
  have ex: "os_exists w (data_home_path w dh)" using hp hd by (simp add: os_exists_resolve)
  have loc: "resolve (cwd w) ?loc = Some ?D" by (rule resolve_data_location [OF hp nm])
  have ed: "ensure_dir ?loc w = (Inr (), ?w1)" using ensure_dir_creates [OF loc hd] absent by simp
  have child: "fs w (?D @ [Name (filename m)]) = None"
  proof (rule ccontr)
    assume "fs w (?D @ [Name (filename m)]) \<noteq> None"
    then obtain n where "fs w (?D @ [Name (filename m)]) = Some n" by blast
    from wf_fsD [OF wf this] absent show False by simp
  qed
  have loc1: "resolve (cwd ?w1) ?loc = Some ?D" using loc by simp
  have miss: "\<not> os_exists ?w1 (local_path_of ?loc m)"
    using os_exists_join [OF loc1] sm child a by simp
  have ff: "fetch_files c ?loc False archive [] ?w1 =
      (Inl (MissingDataError (fst (hd archive)) (local_path_of ?loc (snd (hd archive)))), ?w1)"
    using miss a by (simp add: Let_def del: local_path_of_def)
  show ?thesis
    using get_data_home_exists [OF ex] ed ff
    by (simp add: fetch_dataset_def data_location_of_def est_bind_def Let_def del: local_path_of_def)
qed

theorem fetch_dataset_offline_leaves_dir_witness:
  "fetch_dataset ifabp_demo_cfg ifabp_NAME ifabp_DESCRIPTION ifabp_ARCHIVE ''/pkg'' None False ifabp_demo_world =
    (Inl (MissingDataError (fst (hd ifabp_ARCHIVE))
       (local_path_of (data_location_of ifabp_demo_world None ifabp_NAME) (snd (hd ifabp_ARCHIVE)))),
     ifabp_demo_world\<lparr>fs := (fs ifabp_demo_world)([Name ''data''] @ [Name ifabp_NAME] \<mapsto> Dir)\<rparr>)"
  by (rule fetch_dataset_offline_leaves_dir [OF _ _ _ _ ifabp_demo_wf]) code_simp+

text \<open>
  C4. A successful run returns a bundle whose keys are the roles of
  \<^verbatim>\<open>ARCHIVE\<close> in order followed by \<^verbatim>\<open>DESCR\<close>; every role is bound to
  \<^verbatim>\<open>join(data_location, filename)\<close>, where a file exists afterwards, and
  \<^verbatim>\<open>DESCR\<close> to the text of the description file.
\<close>

theorem fetch_dataset_result:
  assumes run: "fetch_dataset c name descr archive mp dh dim w = (Inr b, w')"
    and "visible_path (cwd w)" and "simple_name name" and wa: "wf_archive archive"
  shows "bunch_keys b = map fst archive @ [''DESCR''] \<and>
    (\<forall>(ft, m) \<in> set archive.
       bunch_getattr b ft = Inr (posix_join (data_location_of w dh name) (filename m)) \<and>
       os_exists w' (posix_join (data_location_of w dh name) (filename m))) \<and>
    (\<exists>dtext. read_file (posix_join (posix_join mp ''descr'') descr) w' = (Inr dtext, w') \<and>
       bunch_getattr b ''DESCR'' = Inr dtext)"
proof -
  let ?loc = "data_location_of w dh name"
  from fetch_dataset_ok_facts [OF assms] obtain dtext where
    files: "\<forall>(ft, m) \<in> set archive. os_exists w' (posix_join ?loc (filename m))"
    and descr: "read_file (posix_join (posix_join mp ''descr'') descr) w' = (Inr dtext, w')"
    and b: "b = bunch_setattr ''DESCR'' dtext (archive_records ?loc archive [])"
    by blast
  from wa have dist: "distinct (map fst archive)" and nd: "''DESCR'' \<notin> set (map fst archive)"
    by (simp_all add: wf_archive_def)
  have keys: "bunch_keys (archive_records ?loc archive []) = map fst archive"
    using archive_records_keys [OF dist, of "[]"] by (simp add: bunch_keys_def)
  have "bunch_keys b = map fst archive @ [''DESCR'']"
    using b keys nd by (simp add: bunch_setattr_def bunch_keys_setitem)
  moreover have "bunch_getattr b ft = Inr (posix_join ?loc (filename m))" if "(ft, m) \<in> set archive" for ft m
  proof -
    have "ft \<noteq> ''DESCR''" using that nd by force
    have "map_of (archive_records ?loc archive []) ft = Some (posix_join ?loc (filename m))"
      by (rule archive_records_lookup [OF dist that])
    with \<open>ft \<noteq> ''DESCR''\<close> b show ?thesis
      by (simp add: bunch_getattr_def bunch_setattr_def)
  qed
  moreover have "bunch_getattr b ''DESCR'' = Inr dtext" using b by simp
  ultimately show ?thesis using files descr by blast
qed

theorem fetch_dataset_result_witness:
  "bunch_keys adk_demo_bundle = [''topology'', ''trajectory'', ''DESCR'']"
  using fetch_dataset_result [OF adk_demo_run adk_demo_cwd_visible adk_simple_name adk_wf_archive]
  by (simp add: adk_ARCHIVE_def)

text \<open>
  C7. When the data home, the dataset directory and every file of the
  archive exist and the description can be read, a fetcher returns the bundle
  of local paths without a request and without any change to the world: it
  checks that the files exist, not what they hold.
\<close>

theorem fetch_dataset_cached:
  assumes "os_exists w (data_home_path w dh)"
    and "os_exists w (data_location_of w dh name)"
    and "\<forall>(ft, m) \<in> set archive. os_exists w (posix_join (data_location_of w dh name) (filename m))"
    and "read_file (posix_join (posix_join mp ''descr'') descr) w = (Inr dtext, w)"
  shows "fetch_dataset c name descr archive mp dh dim w =
    (Inr (bunch_setattr ''DESCR'' dtext (archive_records (data_location_of w dh name) archive [])), w)"
  using assms by (rule fetch_dataset_from_cache)

theorem fetch_dataset_cached_witness:
  "fetch_dataset adk_demo_cfg adk_NAME adk_DESCRIPTION adk_ARCHIVE ''/pkg'' None True adk_corrupt_world =
     (Inr (bunch_setattr ''DESCR'' ''AdK description''
        (archive_records (data_location_of adk_corrupt_world None adk_NAME) adk_ARCHIVE [])),
      adk_corrupt_world)"
  using fetch_dataset_cached [OF adk_corrupt_cached adk_corrupt_descr] .

text \<open>
  C8. A fetcher makes at most \<open>max_attempts\<close> requests per archive entry,
  only to the URLs of the archive, and only appends to the request log.
\<close>

theorem fetch_dataset_requests_bound:
  assumes "fetch_dataset c name descr archive mp dh dim w = (r, w')" and "name \<noteq> []"
  shows "\<exists>us. requests w' = requests w @ us \<and> length us \<le> length archive * max_attempts c \<and>
    set us \<subseteq> url ` snd ` set archive"
  using assms
proof (cases rule: fetch_dataset_files_phase)
  case 1
  then show ?thesis by (intro exI [of _ "[]"]) (simp add: fs_only_def)
next
  case (2 w2 r3 d)
  from fetch_files_requests [OF 2(2,3)] 2(1) show ?thesis by (simp add: fs_only_def)
qed

theorem fetch_dataset_requests_bound_witness:
  "\<exists>us. requests (snd (fetch_dataset adk_demo_cfg adk_NAME adk_DESCRIPTION adk_ARCHIVE ''/pkg'' None True adk_demo_world)) = requests adk_demo_world @ us \<and>
     length us \<le> length adk_ARCHIVE * max_attempts adk_demo_cfg"
  using fetch_dataset_requests_bound [OF prod.collapse [symmetric], where c = adk_demo_cfg and name = adk_NAME
      and descr = adk_DESCRIPTION and archive = adk_ARCHIVE and mp = "''/pkg''" and dh = None and dim = True
      and w = adk_demo_world]
  by (auto simp: adk_NAME_def)

text \<open>
  C20. A fetch requests in archive order: the requests it appends are, for a
  prefix of \<^verbatim>\<open>ARCHIVE\<close>, the URL of each entry some number of times, at
  most \<open>max_attempts\<close>; none for an entry whose file was there when the
  call began; every entry of the prefix but the last has its file at the
  end, so nothing is requested after an entry that fails; and a successful
  call has tried every entry.
\<close>

theorem fetch_dataset_request_order:
  assumes run: "fetch_dataset c name descr archive mp dh dim w = (r, w')"
    and vc: "visible_path (cwd w)" and nm: "simple_name name"
    and loc: "resolve (cwd w) (data_location_of w dh name) = Some d"
    and sn: "list_all (\<lambda>(_, m). simple_name (filename m)) archive"
  shows "\<exists>ks. requests w' = requests w @ request_trace ks archive \<and> length ks \<le> length archive \<and>
    (\<forall>k \<in> set ks. k \<le> max_attempts c) \<and>
    (\<forall>(k, (ft, m)) \<in> set (zip ks archive). os_exists w (local_path_of (data_location_of w dh name) m) \<longrightarrow> k = 0) \<and>
    (\<forall>(ft, m) \<in> set (take (length ks - 1) archive). os_exists w' (local_path_of (data_location_of w dh name) m)) \<and>
    ((\<exists>b. r = Inr b) \<longrightarrow> length ks = length archive)"
proof -
  let ?loc = "data_location_of w dh name"
  have vd: "visible_path d" using resolve_visible [OF vc loc] .
  have none: ?thesis if "dirs_added d w w'" and "\<not> (\<exists>b. r = Inr b)"
    using that by (intro exI [of _ "[]"]) (simp add: dirs_added_def fs_only_def)
  have files: ?thesis if da: "dirs_added d w w2" and ff: "fetch_files c ?loc dim archive [] w2 = (r3, w')"
    and rr: "(\<exists>b. r = Inr b) \<longrightarrow> (\<exists>b. r3 = Inr b)" for w2 r3
  proof -
    have cw: "cwd w2 = cwd w" using da by (simp add: dirs_added_def fs_only_def)
    with loc have loc2: "resolve (cwd w2) ?loc = Some d" by simp
    from fetch_files_request_order [OF ff loc2 vd sn] obtain ks where ks:
      "requests w' = requests w2 @ request_trace ks archive" "length ks \<le> length archive"
      "\<forall>k \<in> set ks. k \<le> max_attempts c"
      "\<forall>(k, (ft, m)) \<in> set (zip ks archive). os_exists w2 (local_path_of ?loc m) \<longrightarrow> k = 0"
      "\<forall>(ft, m) \<in> set (take (length ks - 1) archive). os_exists w' (local_path_of ?loc m)"
      "(\<exists>b. r3 = Inr b) \<longrightarrow> length ks = length archive" by blast
    have "requests w2 = requests w" using da by (simp add: dirs_added_def fs_only_def)
    moreover have "k = 0" if z: "(k, ft, m) \<in> set (zip ks archive)" and ex: "os_exists w (local_path_of ?loc m)"
      for k ft m
    proof -
      from z have "(ft, m) \<in> set archive" by (blast dest: set_zip_rightD)
      with sn have sm: "simple_name (filename m)" by (auto simp: list_all_iff)
      from ex os_exists_join [OF loc sm] have "fs w (d @ [Name (filename m)]) \<noteq> None" by simp
      from dirs_added_visible [OF da this] os_exists_join [OF loc2 sm]
      have "os_exists w2 (local_path_of ?loc m)" by simp
      with ks(4) z show ?thesis by fastforce
    qed
    ultimately show ?thesis using ks rr by (intro exI [of _ ks]) auto
  qed
  from run show ?thesis
  proof (cases rule: fetch_dataset_phases)
    case (home_fail e)
    then show ?thesis using none get_data_home_dirs_added [OF _ nm loc] by blast
  next
    case (dir_fail w1 e)
    then show ?thesis using none setup_dirs_added [OF _ _ nm loc] by blast
  next
    case (files_fail w1 w2 e)
    then show ?thesis using files setup_dirs_added [OF _ _ nm loc] by blast
  next
    case (descr_fail w1 w2 recs e)
    then show ?thesis using files setup_dirs_added [OF _ _ nm loc] by blast
  next
    case (ok w1 w2 recs dtext)
    then show ?thesis using files setup_dirs_added [OF _ _ nm loc] by blast
  qed
qed

theorem fetch_dataset_request_order_witness:
  "\<exists>ks. requests (snd (fetch_dataset adk_demo_cfg adk_NAME adk_DESCRIPTION adk_ARCHIVE ''/pkg'' None True adk_demo_world)) =
     requests adk_demo_world @ request_trace ks adk_ARCHIVE \<and> length ks = 2"
proof -
  have loc: "resolve (cwd adk_demo_world) (data_location_of adk_demo_world None adk_NAME) = Some adk_demo_dir"
    and sn: "list_all (\<lambda>(_, m). simple_name (filename m)) adk_ARCHIVE" by code_simp+
  have ok: "\<exists>b. fst (fetch_dataset adk_demo_cfg adk_NAME adk_DESCRIPTION adk_ARCHIVE ''/pkg'' None True adk_demo_world) = Inr b"
    using adk_demo_run by (metis fst_conv)
  from fetch_dataset_request_order [OF prod.collapse [symmetric] adk_demo_cwd_visible adk_simple_name loc sn,
      where c = adk_demo_cfg and descr = adk_DESCRIPTION and mp = "''/pkg''" and dim = True]
  show ?thesis using ok by (auto simp: adk_ARCHIVE_def)
qed

text \<open>
  C9. The time a fetcher spends is bounded: per archive entry at most
  \<open>max_attempts\<close> transport timeouts plus the back-off sleeps, which add up
  to less than \<open>2 ^ max_attempts\<close> seconds.
\<close>

theorem fetch_dataset_time_bound:
  assumes "fetch_dataset c name descr archive mp dh dim w = (r, w')" and "name \<noteq> []"
  shows "clock w \<le> clock w' \<and>
    clock w' \<le> clock w + length archive * (max_attempts c * timeout c + backoff (max_attempts c))"
  using assms
proof (cases rule: fetch_dataset_files_phase)
  case 1
  then show ?thesis by (simp add: fs_only_def)
next
  case (2 w2 r3 d)
  from fetch_files_clock [OF 2(2,3)] 2(1) show ?thesis by (simp add: fs_only_def)
qed

theorem fetch_dataset_time_bound_witness:
  "clock (snd (fetch_dataset adk_demo_cfg adk_NAME adk_DESCRIPTION adk_ARCHIVE ''/pkg'' None True adk_demo_world)) \<le>
     clock adk_demo_world + length adk_ARCHIVE * (max_attempts adk_demo_cfg * timeout adk_demo_cfg +
       backoff (max_attempts adk_demo_cfg))"
  using fetch_dataset_time_bound [OF prod.collapse [symmetric], where c = adk_demo_cfg and name = adk_NAME
      and descr = adk_DESCRIPTION and archive = adk_ARCHIVE and mp = "''/pkg''" and dh = None and dim = True
      and w = adk_demo_world]
  by (auto simp: adk_NAME_def)

text \<open>
  C16. A fetch only appends to the log, and what it appends is one
  \<^verbatim>\<open>Downloading role: url -> path...\<close> line for some of the archive
  entries, in archive order and at most once each; with
  \<^verbatim>\<open>download_if_missing=False\<close> it logs nothing.
\<close>

theorem fetch_dataset_log:
  assumes "fetch_dataset c name descr archive mp dh dim w = (r, w')"
  shows "\<exists>ms. log w' = log w @ ms \<and> subseq ms (download_log (data_location_of w dh name) archive) \<and>
    (\<not> dim \<longrightarrow> ms = [])"
proof -
  have nolog: "\<exists>ms. log w' = log w @ ms \<and> subseq ms (download_log (data_location_of w dh name) archive) \<and>
      (\<not> dim \<longrightarrow> ms = [])" if "fs_only w w'"
    using that by (intro exI [of _ "[]"]) (simp add: fs_only_def)
  have files: "\<exists>ms. log w' = log w @ ms \<and> subseq ms (download_log (data_location_of w dh name) archive) \<and>
      (\<not> dim \<longrightarrow> ms = [])"
    if "fs_only w w2" and "fetch_files c (data_location_of w dh name) dim archive [] w2 = (r3, w')" for w2 r3
    using fetch_files_log [OF that(2)] that(1) by (simp add: fs_only_def)
  have pre: "fs_only w w2" if "get_data_home dh w = (Inr h, w1)" and "ensure_dir loc w1 = (r2, w2)"
    for h w1 loc r2 w2
    using fs_only_trans [OF conjunct1 [OF get_data_home_effect [OF that(1)]] ensure_dir_fs_only [OF that(2)]] .
  from assms show ?thesis
  proof (cases rule: fetch_dataset_phases)
    case (home_fail e)
    then show ?thesis using nolog conjunct1 [OF get_data_home_effect [OF home_fail(1)]] by simp
  next
    case (dir_fail w1 e)
    from pre [OF dir_fail(1,2)] show ?thesis by (rule nolog)
  next
    case (files_fail w1 w2 e)
    from files [OF pre [OF files_fail(1,2)] files_fail(3)] show ?thesis .
  next
    case (descr_fail w1 w2 recs e)
    from files [OF pre [OF descr_fail(1,2)] descr_fail(3)] show ?thesis .
  next
    case (ok w1 w2 recs dtext)
    from files [OF pre [OF ok(1,2)] ok(3)] show ?thesis .
  qed
qed

theorem fetch_dataset_log_witness:
  "\<exists>ms. log (snd (fetch_dataset adk_demo_cfg adk_NAME adk_DESCRIPTION adk_ARCHIVE ''/pkg'' None False adk_demo_world)) =
     log adk_demo_world @ ms \<and> ms = []"
  using fetch_dataset_log [OF prod.collapse [symmetric], where c = adk_demo_cfg and name = adk_NAME
      and descr = adk_DESCRIPTION and archive = adk_ARCHIVE and mp = "''/pkg''" and dh = None and dim = False
      and w = adk_demo_world]
  by auto

text \<open>
  C15. A fetch succeeds whenever the host cooperates: when the data home
  exists, the dataset directory is absent or a directory, the archive is
  well formed with distinct URLs and file names, the host serves every file of
  the archive within \<open>max_attempts\<close> requests, and the description file
  lies outside the dataset directory, the fetcher returns the bundle of all
  local paths and the description text.
\<close>

theorem fetch_dataset_succeeds:
  assumes vc: "visible_path (cwd w)"
    and home: "resolve (cwd w) (data_home_path w dh) = Some hp" and hd: "fs w hp = Some Dir"
    and nm: "simple_name name"
    and fresh: "fs w (hp @ [Name name]) = None \<or> fs w (hp @ [Name name]) = Some Dir"
    and wa: "wf_archive archive"
    and du: "distinct (map (url \<circ> snd) archive)" and df: "distinct (map (filename \<circ> snd) archive)"
    and good: "list_all (\<lambda>(_, m). serves c m (max_attempts c) (net w (url m)) \<and>
      fs w (tmp_path c m (hp @ [Name name])) \<noteq> Some Dir) archive"
    and dr: "resolve (cwd w) (descr_path mp descr) = Some dp" and dt: "fs w dp = Some (File dtext)"
    and out: "\<not> prefix (hp @ [Name name]) dp"
  shows "\<exists>w'. fetch_dataset c name descr archive mp dh True w =
    (Inr (bunch_setattr ''DESCR'' dtext (archive_records (data_location_of w dh name) archive [])), w')"
proof -
  let ?d = "hp @ [Name name]" and ?loc = "data_location_of w dh name"
  let ?w2 = "w\<lparr>fs := (fs w)(?d \<mapsto> Dir)\<rparr>"
  have gh: "get_data_home dh w = (Inr (data_home_path w dh), w)"
    using home hd by (intro get_data_home_exists) (simp add: os_exists_resolve)
  have loc: "resolve (cwd w) ?loc = Some ?d" by (rule resolve_data_location [OF home nm])
  have ed: "ensure_dir ?loc w = (Inr (), ?w2)" by (rule ensure_dir_creates [OF loc hd fresh])
  have tmp_ne: "tmp_path c m ?d \<noteq> ?d" for m by simp
  have good2: "list_all (\<lambda>(_, m). serves c m (max_attempts c) (net ?w2 (url m)) \<and>
      fs ?w2 (tmp_path c m ?d) \<noteq> Some Dir) archive"
    using good by (simp add: list_all_iff split_beta)
  have sm: "list_all (\<lambda>(_, m). simple_name (filename m)) archive" using wa by (simp add: wf_archive_def)
  from fetch_files_all_serve [OF _ _ sm du df good2, of ?loc "[]"] loc
  obtain w3 where ff: "fetch_files c ?loc True archive [] ?w2 = (Inr (archive_records ?loc archive []), w3)"
    and cw3: "cwd w3 = cwd w"
    and fr: "\<forall>p. visible_path p \<longrightarrow> (\<forall>m \<in> snd ` set archive. p \<noteq> final_path m ?d) \<longrightarrow> fs w3 p = fs ?w2 p"
    by auto
  have vdp: "visible_path dp" by (rule resolve_visible [OF vc dr])
  have "dp \<noteq> final_path m ?d" for m using out by (auto simp: final_path_def)
  with fr vdp have "fs w3 dp = fs ?w2 dp" by blast
  moreover have "dp \<noteq> ?d" using out by auto
  ultimately have "fs w3 dp = Some (File dtext)" using dt by simp
  then have "read_file (posix_join (posix_join mp ''descr'') descr) w3 = (Inr dtext, w3)"
    using dr cw3 by (simp add: read_file_def)
  from fetch_dataset_ok_eval [OF gh ed ff this] show ?thesis by blast
qed

theorem fetch_dataset_succeeds_witness:
  "\<exists>w'. fetch_dataset adk_demo_cfg adk_NAME adk_DESCRIPTION adk_ARCHIVE ''/pkg'' None True adk_prepared_world =
    (Inr (bunch_setattr ''DESCR'' ''AdK description''
       (archive_records (data_location_of adk_prepared_world None adk_NAME) adk_ARCHIVE [])), w')"
proof -
  let ?w = adk_prepared_world and ?hp = "[Name ''home'', Name ''u'', Name ''MDAnalysis_data'']"
  have vc: "visible_path (cwd ?w)"
    and home: "resolve (cwd ?w) (data_home_path ?w None) = Some ?hp" and hd: "fs ?w ?hp = Some Dir"
    and fresh: "fs ?w (?hp @ [Name adk_NAME]) = None \<or> fs ?w (?hp @ [Name adk_NAME]) = Some Dir"
    and du: "distinct (map (url \<circ> snd) adk_ARCHIVE)" and df: "distinct (map (filename \<circ> snd) adk_ARCHIVE)"
    and good: "list_all (\<lambda>(_, m). serves adk_demo_cfg m (max_attempts adk_demo_cfg) (net ?w (url m)) \<and>
      fs ?w (tmp_path adk_demo_cfg m (?hp @ [Name adk_NAME])) \<noteq> Some Dir) adk_ARCHIVE"
    and dr: "resolve (cwd ?w) (descr_path ''/pkg'' adk_DESCRIPTION) =
      Some [Name ''pkg'', Name ''descr'', Name ''adk_equilibrium.rst'']"
    and dt: "fs ?w [Name ''pkg'', Name ''descr'', Name ''adk_equilibrium.rst''] = Some (File ''AdK description'')"
    and out: "\<not> prefix (?hp @ [Name adk_NAME]) [Name ''pkg'', Name ''descr'', Name ''adk_equilibrium.rst'']"
    by code_simp+
  from fetch_dataset_succeeds [OF vc home hd adk_simple_name fresh adk_wf_archive du df good dr dt out]
  show ?thesis .
qed

section \<open>The loop on concrete answers of the host\<close>

text \<open>
  The claims C5, C6 and C14 of the loop \<open>Fetcher.fetch_files\<close> applied to the example
  world in which the dataset directory exists and no file does.
\<close>

theorem fetch_files_integrity_witness:
  "\<exists>w'. fetch_files adk_demo_cfg ''/home/u/MDAnalysis_data/adk_equilibrium'' True ((''topology'', hd (map snd adk_ARCHIVE)) # tl adk_ARCHIVE) []
      adk_bad_host_world =
    (Inl (IntegrityError ''adk4AKE.psf'' (checksum (hd (map snd adk_ARCHIVE))) ''0''), w') \<and>
    requests w' = [url (hd (map snd adk_ARCHIVE))]"
proof -
  let ?m = "hd (map snd adk_ARCHIVE)" and ?w = adk_bad_host_world
  have loc: "resolve (cwd ?w) ''/home/u/MDAnalysis_data/adk_equilibrium'' = Some adk_demo_dir"
    and sm: "simple_name (filename ?m)" and dir: "fs ?w adk_demo_dir = Some Dir"
    and tmp: "fs ?w (tmp_path adk_demo_cfg ?m adk_demo_dir) \<noteq> Some Dir"
    and miss: "\<not> os_exists ?w (local_path_of ''/home/u/MDAnalysis_data/adk_equilibrium'' ?m)"
    and q: "net ?w (url ?m) = Ok ''garbage'' # []" and n: "0 < max_attempts adk_demo_cfg"
    and bad: "sha256 adk_demo_cfg ''garbage'' \<noteq> checksum ?m"
    and vals: "filename ?m = ''adk4AKE.psf''" "sha256 adk_demo_cfg ''garbage'' = ''0''"
      "requests ?w = []"
    by code_simp+
  from fetch_files_integrity [OF loc sm dir tmp miss q n bad, where ft = "''topology''"
      and rest = "tl adk_ARCHIVE" and recs = "[]"] vals
  show ?thesis by auto
qed

theorem fetch_files_download_progress_witness:
  "fst (fetch_files adk_demo_cfg ''/home/u/MDAnalysis_data/adk_equilibrium'' True [(''trajectory'', snd (adk_ARCHIVE ! 1))] [] adk_prepared_world) =
     Inr [(''trajectory'', local_path_of ''/home/u/MDAnalysis_data/adk_equilibrium'' (snd (adk_ARCHIVE ! 1)))]"
proof -
  let ?m = "snd (adk_ARCHIVE ! 1)" and ?w = adk_prepared_world
  have loc: "resolve (cwd ?w) ''/home/u/MDAnalysis_data/adk_equilibrium'' = Some adk_demo_dir"
    and sm: "simple_name (filename ?m)" and dir: "fs ?w adk_demo_dir = Some Dir"
    and tmp: "fs ?w (tmp_path adk_demo_cfg ?m adk_demo_dir) \<noteq> Some Dir"
    and miss: "\<not> os_exists ?w (local_path_of ''/home/u/MDAnalysis_data/adk_equilibrium'' ?m)"
    and q: "net ?w (url ?m) = [Stall] @ Ok ''DCD-bytes'' # []"
    and tr: "list_all (\<lambda>x. \<not> is_ok x) [Stall]" and n: "length [Stall] < max_attempts adk_demo_cfg"
    and ck: "sha256 adk_demo_cfg ''DCD-bytes'' = checksum ?m"
    by code_simp+
  from fetch_files_download_progress [OF loc sm dir tmp miss q tr n ck, where ft = "''trajectory''"
      and rest = "[]" and recs = "[]"]
  show ?thesis by auto
qed

section \<open>Two fetchers on one cache\<close>

text \<open>
  Two processes (ids 1 and 2) run the example fetch of the topology into the
  example world on an empty cache. Three steps of one interleaving: process 1
  finds the dataset directory missing, process 2 finds it missing, process 1
  creates it; process 2's \<^verbatim>\<open>makedirs\<close> is next.
\<close>

lemma adk_race_three:
  "\<exists>w. reach2 adk_demo_cfg 1 2 (hd (map fst adk_ARCHIVE)) (hd (map snd adk_ARCHIVE)) ''/home/u/MDAnalysis_data/adk_equilibrium'' adk_demo_world (CheckFile, MakeDir, w) \<and>
     fst (proc_step (adk_demo_cfg\<lparr>pid := 2\<rparr>) (hd (map fst adk_ARCHIVE)) (hd (map snd adk_ARCHIVE)) ''/home/u/MDAnalysis_data/adk_equilibrium'' MakeDir w) =
       Failed (FilesystemError EEXIST adk_demo_dir)"
proof -
  let ?c1 = "adk_demo_cfg\<lparr>pid := 1\<rparr>" and ?c2 = "adk_demo_cfg\<lparr>pid := 2\<rparr>"
  let ?w1 = "snd (proc_step ?c1 (hd (map fst adk_ARCHIVE)) (hd (map snd adk_ARCHIVE)) ''/home/u/MDAnalysis_data/adk_equilibrium'' CheckDir adk_demo_world)"
  let ?w2 = "snd (proc_step ?c2 (hd (map fst adk_ARCHIVE)) (hd (map snd adk_ARCHIVE)) ''/home/u/MDAnalysis_data/adk_equilibrium'' CheckDir ?w1)"
  let ?w3 = "snd (proc_step ?c1 (hd (map fst adk_ARCHIVE)) (hd (map snd adk_ARCHIVE)) ''/home/u/MDAnalysis_data/adk_equilibrium'' MakeDir ?w2)"
  have "reach2 adk_demo_cfg 1 2 (hd (map fst adk_ARCHIVE)) (hd (map snd adk_ARCHIVE)) ''/home/u/MDAnalysis_data/adk_equilibrium'' adk_demo_world (MakeDir, CheckDir, ?w1)"
    by (rule reach2_left_eval [OF reach2.start]) code_simp+
  then have "reach2 adk_demo_cfg 1 2 (hd (map fst adk_ARCHIVE)) (hd (map snd adk_ARCHIVE)) ''/home/u/MDAnalysis_data/adk_equilibrium'' adk_demo_world (MakeDir, MakeDir, ?w2)"
    by (rule reach2_right_eval) code_simp+
  then have "reach2 adk_demo_cfg 1 2 (hd (map fst adk_ARCHIVE)) (hd (map snd adk_ARCHIVE)) ''/home/u/MDAnalysis_data/adk_equilibrium'' adk_demo_world (CheckFile, MakeDir, ?w3)"
    by (rule reach2_left_eval) code_simp+
  moreover have "fst (proc_step ?c2 (hd (map fst adk_ARCHIVE)) (hd (map snd adk_ARCHIVE)) ''/home/u/MDAnalysis_data/adk_equilibrium'' MakeDir ?w3) = Failed (FilesystemError EEXIST adk_demo_dir)"
    by code_simp
  ultimately show ?thesis by blast
qed

text \<open>
  C13. The directory step is not safe under concurrency: in the interleaving
  above, process 2's \<^verbatim>\<open>makedirs\<close> of the dataset directory raises
  \<^verbatim>\<open>FileExistsError\<close>, because the directory was created after its own
  existence check; the fetch of process 2 fails instead of reusing the cache.
\<close>

theorem race_makedirs_fails:
  "\<exists>w. reach2 adk_demo_cfg 1 2 (hd (map fst adk_ARCHIVE)) (hd (map snd adk_ARCHIVE)) ''/home/u/MDAnalysis_data/adk_equilibrium'' adk_demo_world
      (CheckFile, Failed (FilesystemError EEXIST adk_demo_dir), w)"
proof -
  obtain w where r: "reach2 adk_demo_cfg 1 2 (hd (map fst adk_ARCHIVE)) (hd (map snd adk_ARCHIVE)) ''/home/u/MDAnalysis_data/adk_equilibrium'' adk_demo_world (CheckFile, MakeDir, w)"
    and f: "fst (proc_step (adk_demo_cfg\<lparr>pid := 2\<rparr>) (hd (map fst adk_ARCHIVE)) (hd (map snd adk_ARCHIVE)) ''/home/u/MDAnalysis_data/adk_equilibrium'' MakeDir w) = Failed (FilesystemError EEXIST adk_demo_dir)"
    using adk_race_three by blast
  from reach2_right_eval [OF r _ f] show ?thesis by auto
qed

theorem fetch_files_transient_witness:
  "\<exists>w'. fetch_files adk_demo_cfg ''/home/u/MDAnalysis_data/adk_equilibrium'' True ((''topology'', (hd (map snd adk_ARCHIVE))) # tl adk_ARCHIVE) []
      (adk_prepared_world\<lparr>net := (\<lambda>u. [Stall, Reset, Status 503])\<rparr>) =
    (Inl (TransientFetchError (url (hd (map snd adk_ARCHIVE))) 3), w') \<and> length (requests w') = 3"
proof -
  let ?w = "adk_prepared_world\<lparr>net := (\<lambda>u. [Stall, Reset, Status 503])\<rparr>"
  have loc: "resolve (cwd ?w) ''/home/u/MDAnalysis_data/adk_equilibrium'' = Some adk_demo_dir"
    and sm: "simple_name (filename (hd (map snd adk_ARCHIVE)))"
    and miss: "\<not> os_exists ?w (local_path_of ''/home/u/MDAnalysis_data/adk_equilibrium'' (hd (map snd adk_ARCHIVE)))"
    and q: "net ?w (url (hd (map snd adk_ARCHIVE))) = [Stall, Reset, Status 503] @ []"
    and tr: "list_all (\<lambda>x. \<not> is_ok x) [Stall, Reset, Status 503]"
    and n: "length [Stall, Reset, Status 503] = max_attempts adk_demo_cfg"
    and pos: "0 < max_attempts adk_demo_cfg"
    and three: "max_attempts adk_demo_cfg = 3" and r0: "requests ?w = []"
    by code_simp+
  from fetch_files_transient [OF loc sm miss q tr n pos, where ft = "''topology''" and rest = "tl adk_ARCHIVE"
      and recs = "[]"] three r0
  show ?thesis by auto
qed

theorem reachN_targets_verified_witness:
  "targets_ok adk_demo_cfg adk_ARCHIVE [Name ''home'', Name ''u'', Name ''MDAnalysis_data'', Name ''adk_equilibrium'']
     (snd (run_step (adk_demo_cfg\<lparr>pid := 3\<rparr>) adk_call HomeCheck adk_demo_world))"
proof -
  let ?hp = "[Name ''home'', Name ''u'', Name ''MDAnalysis_data'']"
  have s0: "reachN adk_demo_cfg adk_call [1, 2, 3] adk_demo_world ([HomeCheck, HomeCheck, HomeCheck], adk_demo_world)"
    using reachN.start [of adk_demo_cfg adk_call "[1, 2, 3]" adk_demo_world] by simp
  have r: "reachN adk_demo_cfg adk_call [1, 2, 3] adk_demo_world
      ([HomeCheck, HomeCheck, HomeMake ''/home/u/MDAnalysis_data''],
       snd (run_step (adk_demo_cfg\<lparr>pid := 3\<rparr>) adk_call HomeCheck adk_demo_world))"
    by (rule reachN_eval [OF s0, where i = 2]) (simp | code_simp)+
  have d: "distinct [1, 2, 3 :: nat]" by simp
  have sn: "simple_name (call_name adk_call)"
    and hp: "resolve (cwd adk_demo_world) (data_home_path adk_demo_world (call_home adk_call)) = Some ?hp"
    and df: "distinct (map (filename \<circ> snd) (call_archive adk_call))"
    and ok: "targets_ok adk_demo_cfg (call_archive adk_call) (?hp @ [Name (call_name adk_call)]) adk_demo_world"
    by code_simp+
  from reachN_targets_verified [OF r d sn hp df ok] show ?thesis by (simp add: adk_call_def adk_NAME_def)
qed

end
